theory Spec2Isabelle
  imports Main "HOL-Library.Char_ord" "HOL-Library.List_Lexorder"
begin

section \<open>Python values and string formatting\<close>

text \<open>
  The values that reach the flag builders come from the parsed probe output and from the
  script's own literals: integers and strings. Python compares values of different types as
  unequal, so \<open>2 == "2"\<close> is false; equality of \<open>pyval\<close> is exactly that.
\<close>

datatype pyval = PInt int | PStr string

text \<open>\<open>str\<close> of a non-negative integer, most significant digit first.\<close>

definition digit_char :: "nat \<Rightarrow> char" where
  "digit_char n = ''0123456789'' ! n"

fun str_nat :: "nat \<Rightarrow> string" where
  "str_nat n = (if n < 10 then [digit_char n] else str_nat (n div 10) @ [digit_char (n mod 10)])"

definition str_int :: "int \<Rightarrow> string" where
  "str_int i = (if i < 0 then CHR ''-'' # str_nat (nat (- i)) else str_nat (nat i))"

text \<open>What \<open>"{}".format(v)\<close> inserts for a value.\<close>

fun format_val :: "pyval \<Rightarrow> string" where
  "format_val (PInt i) = str_int i"
| "format_val (PStr s) = s"

section \<open>Flag builders\<close>

text \<open>\<open>get_audio_flags(codec, channels, index)\<close>, lines 18-28.\<close>

definition get_audio_flags :: "pyval \<Rightarrow> pyval \<Rightarrow> pyval \<Rightarrow> string list" where
  "get_audio_flags codec channels index =
     (if codec = PStr ''aac'' \<and> channels = PStr ''2''
      then [''-c:a'', ''copy'', ''-map'', ''0:a:'' @ format_val index]
      else if codec \<noteq> PStr ''none''
      then [''-c:a'', ''aac'', ''-b:a'', ''192k'', ''-ac'', ''2'',
            ''-map'', ''0:a:'' @ format_val index]
      else [])"

text \<open>
  The scale stage appended to every filter graph; the Python literal
  \<open>"scale=-16:min(720\\,ih)[v]"\<close> holds a single backslash (character 0x5C).
\<close>

definition scale_stage :: string where
  "scale_stage = ''[burned]scale=-16:min(720'' @ [CHR 0x5C] @ '',ih)[v]''"

text \<open>\<open>get_filter_flags(codec, index, subfile)\<close>, lines 30-40.\<close>

definition get_filter_flags :: "pyval \<Rightarrow> pyval \<Rightarrow> pyval \<Rightarrow> string list" where
  "get_filter_flags codec index subfile =
     (let subfilter =
        (if codec = PStr ''dvd_subtitle'' \<or> codec = PStr ''hdmv_pgs_subtitle''
         then ''[0:v][0:s:'' @ format_val index @ '']overlay[burned];''
         else if codec \<noteq> PStr ''none''
         then ''[0:v]subtitles='' @ [CHR 0x27] @ format_val subfile @ [CHR 0x27]
                @ '':si='' @ format_val index @ ''[burned];''
         else ''[0:v]null[burned];'')
      in [''-filter_complex'', subfilter @ scale_stage, ''-map'', ''[v]''])"

section \<open>Series key\<close>

text \<open>
  \<open>get_key\<close> (lines 42-44) applies \<open>re.match\<close> with the pattern
  \<open>\[(.+)\] (.+) - (\d+) .*\<close>: anchored at the start of the name, not at its end. The
  matcher below is the backtracking search of that pattern: each greedy \<open>+\<close> first takes
  the longest run it can and gives characters back one at a time until the rest of the
  pattern matches. \<open>.\<close> is any character but a newline, \<open>\d\<close> a Unicode decimal digit,
  and the final \<open>.*\<close> matches whatever follows (possibly nothing).
\<close>

text \<open>
  A Python \<open>str\<close> is a sequence of Unicode characters; a \<open>string\<close> here is the list of
  the bytes of its UTF-8 encoding. Every literal character of the pattern is ASCII, a
  single byte that occurs in no multi-byte character, and no multi-byte character holds the
  newline byte: a greedy \<open>.+\<close> over characters is a greedy run of non-newline bytes, and a
  group, which starts after and ends before an ASCII literal, holds whole characters. The
  class \<open>\d\<close> is different: on a \<open>str\<close> pattern it matches every character of the
  Unicode category Nd (decimal digit), most of which take two to four bytes.
\<close>

definition not_newline :: "char \<Rightarrow> bool" where
  "not_newline c = (c \<noteq> CHR 0x0A)"

text \<open>
  The decimal digits of Unicode, as the Unicode database of Python 3.11 (Unicode 14.0)
  lists them: 66 runs of ten consecutive code points, the digits 0 to 9 of one script
  each, given by their first code point. ASCII \<open>0\<close> is 0x30, the Arabic-Indic digits
  start at 0x660, the fullwidth digits at 0xFF10.
\<close>

definition decimal_digit_starts :: "int list" where
  "decimal_digit_starts =
     [0x30, 0x660, 0x6F0, 0x7C0, 0x966, 0x9E6, 0xA66, 0xAE6, 0xB66, 0xBE6, 0xC66, 0xCE6,
      0xD66, 0xDE6, 0xE50, 0xED0, 0xF20, 0x1040, 0x1090, 0x17E0, 0x1810, 0x1946, 0x19D0,
      0x1A80, 0x1A90, 0x1B50, 0x1BB0, 0x1C40, 0x1C50, 0xA620, 0xA8D0, 0xA900, 0xA9D0,
      0xA9F0, 0xAA50, 0xABF0, 0xFF10, 0x104A0, 0x10D30, 0x11066, 0x110F0, 0x11136,
      0x111D0, 0x112F0, 0x11450, 0x114D0, 0x11650, 0x116C0, 0x11730, 0x118E0, 0x11950,
      0x11C50, 0x11D50, 0x11DA0, 0x16A60, 0x16AC0, 0x16B50, 0x1D7CE, 0x1D7D8, 0x1D7E2,
      0x1D7EC, 0x1D7F6, 0x1E140, 0x1E2F0, 0x1E950, 0x1FBF0]"

definition is_decimal :: "int \<Rightarrow> bool" where
  "is_decimal cp = list_ex (\<lambda>start. start \<le> cp \<and> cp < start + 10) decimal_digit_starts"

text \<open>
  UTF-8: the first byte of a character gives its payload bits and the number of
  continuation bytes that follow; each continuation byte (0x80 to 0xBF) adds six bits.
  An encoding longer than the code point needs, a surrogate and a code point above
  0x10FFFF are not characters.
\<close>

definition lead_byte :: "int \<Rightarrow> (int \<times> nat) option" where
  "lead_byte n0 =
     (if n0 < 0x80 then Some (n0, 0)
      else if 0xC2 \<le> n0 \<and> n0 < 0xE0 then Some (n0 - 0xC0, 1)
      else if 0xE0 \<le> n0 \<and> n0 < 0xF0 then Some (n0 - 0xE0, 2)
      else if 0xF0 \<le> n0 \<and> n0 < 0xF5 then Some (n0 - 0xF0, 3)
      else None)"

definition is_continuation :: "char \<Rightarrow> bool" where
  "is_continuation b = (0x80 \<le> (of_char b :: int) \<and> (of_char b :: int) < 0xC0)"

definition least_code :: "nat \<Rightarrow> int" where
  "least_code k = (if k = 0 then 0 else if k = 1 then 0x80 else if k = 2 then 0x800
                   else 0x10000)"

text \<open>The character at the head of a string: its code point and its length in bytes.\<close>

definition decode_head :: "string \<Rightarrow> (int \<times> nat) option" where
  "decode_head s = (case s of
       [] \<Rightarrow> None
     | b0 # r \<Rightarrow>
         (case lead_byte (of_char b0) of
            None \<Rightarrow> None
          | Some (bits, k) \<Rightarrow>
              if length r < k \<or> \<not> list_all is_continuation (take k r) then None
              else
                (let cp = foldl (\<lambda>acc b. acc * 64 + (of_char b - 0x80)) bits (take k r)
                 in if least_code k \<le> cp \<and> cp < 0x110000
                       \<and> \<not> (0xD800 \<le> cp \<and> cp < 0xE000)
                    then Some (cp, Suc k) else None)))"

text \<open>\<open>\d\<close> at the head of a string: the length in bytes of the digit matched.\<close>

definition digit_len :: "string \<Rightarrow> nat option" where
  "digit_len s = (case decode_head s of
       None \<Rightarrow> None
     | Some (cp, n) \<Rightarrow> if is_decimal cp then Some n else None)"

text \<open>
  The positions at which a run of one, two, ... digits at the head of \<open>s\<close> ends, shortest
  first: what a greedy \<open>\d+\<close> can take, in the reverse of the order it tries them.
\<close>

function digit_ends :: "string \<Rightarrow> nat list" where
  "digit_ends s = (case digit_len s of
       None \<Rightarrow> []
     | Some n \<Rightarrow> n # map (\<lambda>m. n + m) (digit_ends (drop n s)))"
  by pat_completeness auto
termination
proof (relation "measure length")
  show "wf (measure length)" by simp
next
  fix s :: string and n
  assume "digit_len s = Some n"
  then obtain cp where "decode_head s = Some (cp, n)"
    by (auto simp: digit_len_def split: option.splits if_splits)
  then have "s \<noteq> [] \<and> 0 < n"
    by (cases s) (auto simp: decode_head_def Let_def split: option.splits if_splits)
  then show "(drop n s, s) \<in> measure length" by simp
qed

text \<open>A string that consists of one or more decimal digits and nothing else.\<close>

function decimal_digits :: "string \<Rightarrow> bool" where
  "decimal_digits s = (case digit_len s of
       None \<Rightarrow> False
     | Some n \<Rightarrow> drop n s = [] \<or> decimal_digits (drop n s))"
  by pat_completeness auto
termination
proof (relation "measure length")
  show "wf (measure length)" by simp
next
  fix s :: string and n
  assume "digit_len s = Some n"
  then obtain cp where "decode_head s = Some (cp, n)"
    by (auto simp: digit_len_def split: option.splits if_splits)
  then have "s \<noteq> [] \<and> 0 < n"
    by (cases s) (auto simp: decode_head_def Let_def split: option.splits if_splits)
  then show "(drop n s, s) \<in> measure length" by simp
qed

declare digit_ends.simps [simp del] decimal_digits.simps [simp del]

definition starts_with :: "string \<Rightarrow> string \<Rightarrow> bool" where
  "starts_with p s = (take (length p) s = p)"

fun first_some :: "('a \<Rightarrow> 'b option) \<Rightarrow> 'a list \<Rightarrow> 'b option" where
  "first_some f [] = None"
| "first_some f (x # xs) = (case f x of Some y \<Rightarrow> Some y | None \<Rightarrow> first_some f xs)"

text \<open>The lengths a greedy \<open>P+\<close> tries at the head of \<open>s\<close>, longest first.\<close>

definition greedy_lengths :: "(char \<Rightarrow> bool) \<Rightarrow> string \<Rightarrow> nat list" where
  "greedy_lengths P s = rev [1 ..< Suc (length (takeWhile P s))]"

text \<open>\<open>(\d+) .*\<close>\<close>

definition match_digits :: "string \<Rightarrow> unit option" where
  "match_digits s = first_some
     (\<lambda>n. if starts_with '' '' (drop n s) then Some () else None)
     (rev (digit_ends s))"

text \<open>\<open>(.+) - (\d+) .*\<close>, returning the text of the first group here.\<close>

definition match_title :: "string \<Rightarrow> string option" where
  "match_title s = first_some
     (\<lambda>n. if starts_with '' - '' (drop n s)
          then (case match_digits (drop (n + 3) s) of
                  Some u \<Rightarrow> Some (take n s) | None \<Rightarrow> None)
          else None)
     (greedy_lengths not_newline s)"

text \<open>\<open>(.+)\] (.+) - (\d+) .*\<close>, returning the text of the second group.\<close>

definition match_group :: "string \<Rightarrow> string option" where
  "match_group s = first_some
     (\<lambda>n. if starts_with ''] '' (drop n s) then match_title (drop (n + 2) s) else None)
     (greedy_lengths not_newline s)"

text \<open>\<open>match.group(2)\<close> of the whole pattern, \<open>None\<close> when \<open>re.match\<close> returns \<open>None\<close>.\<close>

definition re_match_group2 :: "string \<Rightarrow> string option" where
  "re_match_group2 file = (case file of
       [] \<Rightarrow> None
     | c # rest \<Rightarrow> if c = CHR ''['' then match_group rest else None)"

definition get_key :: "string \<Rightarrow> string" where
  "get_key file = (case re_match_group2 file of Some t \<Rightarrow> t | None \<Rightarrow> file)"

text \<open>
  The pattern as the specification words it, \<open>[group] Title - NN <anything>\<close>: a
  decomposition of the name into its segments, group and Title non-empty and without a
  newline, NN one or more decimal digits.
\<close>

definition matches_pattern :: "string \<Rightarrow> string \<Rightarrow> string \<Rightarrow> string \<Rightarrow> string \<Rightarrow> bool" where
  "matches_pattern file g t d rest \<longleftrightarrow>
     file = ''['' @ g @ ''] '' @ t @ '' - '' @ d @ '' '' @ rest
     \<and> g \<noteq> [] \<and> list_all not_newline g
     \<and> t \<noteq> [] \<and> list_all not_newline t
     \<and> decimal_digits d"

text \<open>The same decomposition, stage by stage, as the matcher consumes the name.\<close>

definition digits_tail :: "string \<Rightarrow> string \<Rightarrow> string \<Rightarrow> bool" where
  "digits_tail s d rest \<longleftrightarrow> s = d @ '' '' @ rest \<and> decimal_digits d"

definition title_tail :: "string \<Rightarrow> string \<Rightarrow> string \<Rightarrow> string \<Rightarrow> bool" where
  "title_tail s t d rest \<longleftrightarrow> s = t @ '' - '' @ d @ '' '' @ rest
     \<and> t \<noteq> [] \<and> list_all not_newline t \<and> decimal_digits d"

definition group_tail :: "string \<Rightarrow> string \<Rightarrow> string \<Rightarrow> string \<Rightarrow> string \<Rightarrow> bool" where
  "group_tail s g t d rest \<longleftrightarrow>
     g \<noteq> [] \<and> list_all not_newline g \<and> (\<exists>u. s = g @ ''] '' @ u \<and> title_tail u t d rest)"

section \<open>Effects: events, errors and the outside world\<close>

text \<open>
  Everything the script does to the outside is recorded as an event, in order. \<open>Probe\<close>
  and \<open>Encode\<close> carry the argument list given to \<open>subprocess.run\<close>; \<open>Prompt\<close> is one
  call of \<open>input\<close>; \<open>EncodeFailed\<close> is the line
  \<open>encode failed with invocation: <args>\<close> on standard error.
\<close>

datatype event =
    Mkdir string
  | Stdout string
  | Stderr string
  | Probe "string list"
  | Prompt string
  | Encode "string list"
  | EncodeFailed "string list"

text \<open>The exceptions the script can raise.\<close>

datatype error =
    KeyError string
  | IndexError
  | ValueError
  | EOFError
  | JSONDecodeError
  | OSError string

text \<open>A computation: the events it emitted, then an exception or a value.\<close>

type_synonym 'a run = "event list \<times> (error + 'a)"

definition return :: "'a \<Rightarrow> 'a run" where
  "return x = ([], Inr x)"

definition raise :: "error \<Rightarrow> 'a run" where
  "raise e = ([], Inl e)"

definition emit :: "event \<Rightarrow> unit run" where
  "emit ev = ([ev], Inr ())"

definition then_do :: "'a run \<Rightarrow> ('a \<Rightarrow> 'b run) \<Rightarrow> 'b run" where
  "then_do m f = (case m of
       (es, Inl e) \<Rightarrow> (es, Inl e)
     | (es, Inr x) \<Rightarrow> (case f x of (es', r) \<Rightarrow> (es @ es', r)))"

text \<open>\<open>d[name]\<close> on a parsed JSON object: \<open>KeyError\<close> when the key is absent.\<close>

definition subscript_key :: "string \<Rightarrow> 'a option \<Rightarrow> 'a run" where
  "subscript_key name field = (case field of None \<Rightarrow> raise (KeyError name) | Some v \<Rightarrow> return v)"

text \<open>
  \<open>xs[k]\<close> on a Python list: a negative \<open>k\<close> counts from the end, anything outside
  \<open>-len(xs) .. len(xs)-1\<close> raises \<open>IndexError\<close>.
\<close>

definition py_index :: "'a list \<Rightarrow> int \<Rightarrow> 'a option" where
  "py_index xs k = (let n = int (length xs) in
     if 0 \<le> k \<and> k < n then Some (xs ! nat k)
     else if - n \<le> k \<and> k < 0 then Some (xs ! nat (n + k))
     else None)"

definition subscript_index :: "'a list \<Rightarrow> int \<Rightarrow> 'a run" where
  "subscript_index xs k = (case py_index xs k of None \<Rightarrow> raise IndexError | Some x \<Rightarrow> return x)"

text \<open>
  One stream object of the probe's JSON output. The script reads four keys with
  \<open>stream[...]\<close>, each of which raises \<open>KeyError\<close> when the probe left it out; inside
  \<open>tags\<close> it reads \<open>title\<close> and \<open>language\<close> with \<open>.get\<close> and a default.
\<close>

record stream =
  codec_type :: "string option"
  codec_name :: "string option"
  channels :: "int option"
  tags :: "(string \<rightharpoonup> string) option"

text \<open>
  What \<open>json.loads(results.stdout.decode("utf-8"))\<close> makes of the probe's output: text
  that does not parse (the call raises), or an object with or without a \<open>streams\<close> list.
\<close>

datatype probe_stdout = NotJson | JsonObject "stream list option"

text \<open>
  \<open>subprocess.run\<close>: the tool could not be launched (\<open>OSError\<close>), or it ran and
  returned an exit code and its captured output.
\<close>

datatype 'a run_result = LaunchError string | Completed int 'a

text \<open>
  One line typed by the operator, as \<open>int(input(...))\<close> reads it: an integer, or
  something \<open>int\<close> rejects with \<open>ValueError\<close>. No line left is \<open>EOFError\<close>.
\<close>

datatype reply = Number int | NotANumber

definition read_choice :: "reply list \<Rightarrow> (int \<times> reply list) run" where
  "read_choice rs = (case rs of
       [] \<Rightarrow> then_do (emit (Prompt ''Choice: '')) (\<lambda>u. raise EOFError)
     | Number k # rs' \<Rightarrow> then_do (emit (Prompt ''Choice: '')) (\<lambda>u. return (k, rs'))
     | NotANumber # rs' \<Rightarrow> then_do (emit (Prompt ''Choice: '')) (\<lambda>u. raise ValueError))"

text \<open>
  The world one run sees: whether \<open>hardsubbed\<close> exists, the error of \<open>os.mkdir\<close> if it
  fails, the names in the working directory, and the two external tools.
\<close>

record world =
  hardsubbed_exists :: bool
  mkdir_fails :: "string option"
  listing :: "string list"
  ffprobe :: "string list \<Rightarrow> probe_stdout run_result"
  ffmpeg :: "string list \<Rightarrow> unit run_result"

section \<open>Track resolution (first pass)\<close>

text \<open>\<open>print_stream_info\<close>, lines 46-53; the counter starts at 0.\<close>

fun print_stream_info_from :: "int \<Rightarrow> stream list \<Rightarrow> unit run" where
  "print_stream_info_from stream_index [] = return ()"
| "print_stream_info_from stream_index (st # sts) =
     then_do (subscript_key ''tags'' (tags st)) (\<lambda>tg.
       let stream_title = (case tg ''title'' of Some v \<Rightarrow> v | None \<Rightarrow> ''No Title'');
           stream_language = (case tg ''language'' of Some v \<Rightarrow> v | None \<Rightarrow> ''Unknown'')
       in then_do (emit (Stdout (str_int stream_index @ '': '' @ stream_title
                                  @ '' ('' @ stream_language @ '')'')))
            (\<lambda>u. print_stream_info_from (stream_index + 1) sts))"

definition print_stream_info :: "stream list \<Rightarrow> unit run" where
  "print_stream_info streams = print_stream_info_from 0 streams"

text \<open>
  The comprehension \<open>[stream for stream in streams if stream["codec_type"] == ty]\<close>,
  lines 92-93: order preserved, \<open>KeyError\<close> at the first stream without the key.
\<close>

fun streams_of_type :: "string \<Rightarrow> stream list \<Rightarrow> stream list run" where
  "streams_of_type ty [] = return []"
| "streams_of_type ty (st # sts) =
     then_do (subscript_key ''codec_type'' (codec_type st)) (\<lambda>t.
     then_do (streams_of_type ty sts) (\<lambda>rest.
       return (if t = ty then st # rest else rest)))"

text \<open>
  Lines 95-108: the audio choice, as (index, channels, codec) with the operator's
  remaining input.
\<close>

definition select_audio ::
  "string \<Rightarrow> stream list \<Rightarrow> reply list \<Rightarrow> ((int \<times> int \<times> string) \<times> reply list) run" where
  "select_audio key audio_streams rs =
     (if length audio_streams > 1 then
        then_do (emit (Stdout (''Please choose which audio stream to use for '' @ key @ '':'')))
          (\<lambda>u.
        then_do (print_stream_info audio_streams) (\<lambda>u.
        then_do (read_choice rs) (\<lambda>(audio_stream, rs').
        then_do (subscript_index audio_streams audio_stream) (\<lambda>st.
        then_do (subscript_key ''channels'' (channels st)) (\<lambda>audio_channels.
        then_do (subscript_key ''codec_name'' (codec_name st)) (\<lambda>audio_codec.
          return ((audio_stream, audio_channels, audio_codec), rs')))))))
      else if length audio_streams = 1 then
        then_do (subscript_index audio_streams 0) (\<lambda>st.
        then_do (subscript_key ''channels'' (channels st)) (\<lambda>audio_channels.
        then_do (subscript_key ''codec_name'' (codec_name st)) (\<lambda>audio_codec.
          return ((0, audio_channels, audio_codec), rs))))
      else return ((- 1, - 1, ''none''), rs))"

text \<open>Lines 110-120: the subtitle choice, as (index, codec).\<close>

definition select_subtitle ::
  "string \<Rightarrow> stream list \<Rightarrow> reply list \<Rightarrow> ((int \<times> string) \<times> reply list) run" where
  "select_subtitle key subtitle_streams rs =
     (if length subtitle_streams > 1 then
        then_do (emit (Stdout (''Please choose which subtitle stream to use for '' @ key
                                @ '':''))) (\<lambda>u.
        then_do (print_stream_info subtitle_streams) (\<lambda>u.
        then_do (read_choice rs) (\<lambda>(subtitle_stream, rs').
        then_do (subscript_index subtitle_streams subtitle_stream) (\<lambda>st.
        then_do (subscript_key ''codec_name'' (codec_name st)) (\<lambda>subtitle_codec.
          return ((subtitle_stream, subtitle_codec), rs'))))))
      else if length subtitle_streams = 1 then
        then_do (subscript_index subtitle_streams 0) (\<lambda>st.
        then_do (subscript_key ''codec_name'' (codec_name st)) (\<lambda>subtitle_codec.
          return ((0, subtitle_codec), rs)))
      else return ((- 1, ''none''), rs))"

text \<open>The entry stored in \<open>chosen_tracks\<close>, lines 122-126.\<close>

record track_selection =
  audio_index :: int
  subtitle_index :: int
  audio_codec :: string
  audio_channels :: int
  subtitle_codec :: string

text \<open>Lines 92-126: from the stream list of one probed file to its track selection.\<close>

definition resolve ::
  "string \<Rightarrow> stream list \<Rightarrow> reply list \<Rightarrow> (track_selection \<times> reply list) run" where
  "resolve key streams rs =
     then_do (streams_of_type ''audio'' streams) (\<lambda>audio_streams.
     then_do (streams_of_type ''subtitle'' streams) (\<lambda>subtitle_streams.
     then_do (select_audio key audio_streams rs) (\<lambda>((a_idx, a_ch, a_codec), rs1).
     then_do (select_subtitle key subtitle_streams rs1) (\<lambda>((s_idx, s_codec), rs2).
       return (\<lparr> audio_index = a_idx, subtitle_index = s_idx, audio_codec = a_codec,
                 audio_channels = a_ch, subtitle_codec = s_codec \<rparr>, rs2)))))"

definition probe_args :: "string \<Rightarrow> string list" where
  "probe_args file = [''ffprobe'', ''-hide_banner'', ''-loglevel'', ''error'', ''-i'', file,
     ''-show_entries'', ''stream=codec_type,codec_name,channels:stream_tags=language,title'',
     ''-of'', ''json'']"

text \<open>
  Lines 80-126 for one file: run the probe, report a non-zero exit code on standard error
  and go on, parse the output, resolve.
\<close>

definition probe_and_resolve ::
  "(string list \<Rightarrow> probe_stdout run_result) \<Rightarrow> string \<Rightarrow> string \<Rightarrow> reply list
     \<Rightarrow> (track_selection \<times> reply list) run" where
  "probe_and_resolve probe key file rs =
     then_do (emit (Probe (probe_args file))) (\<lambda>u.
       case probe (probe_args file) of
         LaunchError msg \<Rightarrow> raise (OSError msg)
       | Completed returncode out \<Rightarrow>
           then_do (if returncode \<noteq> 0
                    then emit (Stderr (''probe failed with code: '' @ str_int returncode))
                    else return ()) (\<lambda>u.
             case out of
               NotJson \<Rightarrow> raise JSONDecodeError
             | JsonObject None \<Rightarrow> raise (KeyError ''streams'')
             | JsonObject (Some streams) \<Rightarrow> resolve key streams rs))"

text \<open>The first loop, lines 74-126, threading \<open>chosen_tracks\<close> and the operator's input.\<close>

fun pass1 ::
  "(string list \<Rightarrow> probe_stdout run_result) \<Rightarrow> string list
     \<Rightarrow> (string \<rightharpoonup> track_selection) \<Rightarrow> reply list
     \<Rightarrow> ((string \<rightharpoonup> track_selection) \<times> reply list) run" where
  "pass1 probe [] chosen_tracks rs = return (chosen_tracks, rs)"
| "pass1 probe (file # files) chosen_tracks rs =
     (let key = get_key file in
      case chosen_tracks key of
        Some sel \<Rightarrow> pass1 probe files chosen_tracks rs
      | None \<Rightarrow>
          then_do (probe_and_resolve probe key file rs) (\<lambda>(sel, rs').
            pass1 probe files (chosen_tracks(key \<mapsto> sel)) rs'))"

section \<open>Input discovery and output path\<close>

definition ends_with :: "string \<Rightarrow> string \<Rightarrow> bool" where
  "ends_with suffix s = (length suffix \<le> length s \<and> drop (length s - length suffix) s = suffix)"

text \<open>
  \<open>glob("*" + ext)\<close> in the working directory: the names that end with \<open>ext\<close>; a name
  starting with a dot is hidden from a pattern that does not start with one. The order is
  the directory's.
\<close>

definition glob_star :: "string \<Rightarrow> string list \<Rightarrow> string list" where
  "glob_star ext names =
     filter (\<lambda>f. f \<noteq> [] \<and> hd f \<noteq> CHR ''.'' \<and> ends_with ext f) names"

text \<open>
  Lines 65-66: both globs, concatenated and sorted. Python compares strings by code point,
  which is the order of their UTF-8 bytes.
\<close>

definition file_list :: "string list \<Rightarrow> string list" where
  "file_list names = sort (glob_star ''.mkv'' names @ glob_star ''.mp4'' names)"

text \<open>\<open>s.rfind(c)\<close>: the last position of \<open>c\<close>, or -1.\<close>

fun rfind_from :: "char \<Rightarrow> string \<Rightarrow> int \<Rightarrow> int \<Rightarrow> int" where
  "rfind_from c [] pos found = found"
| "rfind_from c (x # xs) pos found = rfind_from c xs (pos + 1) (if x = c then pos else found)"

definition rfind :: "string \<Rightarrow> char \<Rightarrow> int" where
  "rfind s c = rfind_from c s 0 (- 1)"

text \<open>
  The loop of \<open>os.path.splitext\<close> that skips leading dots: is there a character other
  than a dot at a position from \<open>filenameIndex\<close> up to, not including, \<open>dotIndex\<close>?
\<close>

function has_non_dot :: "string \<Rightarrow> int \<Rightarrow> int \<Rightarrow> bool" where
  "has_non_dot p filenameIndex dotIndex =
     (if filenameIndex < dotIndex
      then (if p ! nat filenameIndex \<noteq> CHR ''.'' then True
            else has_non_dot p (filenameIndex + 1) dotIndex)
      else False)"
  by pat_completeness auto
termination
  by (relation "measure (\<lambda>(p, i, d). nat (d - i))") auto

declare has_non_dot.simps [simp del]

text \<open>
  \<open>os.path.splitext\<close> on a POSIX path: split at the last dot, unless that dot comes
  before the last slash or only dots lie between the last slash and it.
\<close>

definition splitext :: "string \<Rightarrow> string \<times> string" where
  "splitext p =
     (let sepIndex = rfind p CHR ''/'';
          dotIndex = rfind p CHR ''.''
      in if dotIndex > sepIndex \<and> has_non_dot p (sepIndex + 1) dotIndex
         then (take (nat dotIndex) p, drop (nat dotIndex) p)
         else (p, []))"

text \<open>Line 162: \<open>"hardsubbed/{}.mp4".format(os.path.splitext(file)[0])\<close>.\<close>

definition output_path :: "string \<Rightarrow> string" where
  "output_path file = ''hardsubbed/'' @ fst (splitext file) @ ''.mp4''"

section \<open>Encoding (second pass)\<close>

definition video_flags :: "string list" where
  "video_flags = [''-c:v'', ''libx264'', ''-profile:v'', ''main'', ''-preset:v'', ''veryslow'',
     ''-crf'', ''18'', ''-tune'', ''animation'', ''-bf'', ''16'', ''-aq-mode'', ''2'',
     ''-pix_fmt'', ''yuv420p'']"

text \<open>
  Lines 141-162: the encoder's argument list for one file. The call on line 147 is
  \<open>get_audio_flags(audio_channels, audio_codec, audio_index)\<close>: the channel count is
  passed where the builder expects the codec, and the codec where it expects the channel
  count.
\<close>

definition encode_args :: "string \<Rightarrow> track_selection \<Rightarrow> string list" where
  "encode_args file track_info =
     (let audio_flags = get_audio_flags (PInt (audio_channels track_info))
                          (PStr (audio_codec track_info)) (PInt (audio_index track_info));
          filter_flags = get_filter_flags (PStr (subtitle_codec track_info))
                          (PInt (subtitle_index track_info)) (PStr file)
      in [''ffmpeg'', ''-hide_banner'', ''-loglevel'', ''warning'', ''-stats'', ''-i'', file]
         @ video_flags @ audio_flags @ filter_flags @ [output_path file])"

text \<open>
  Lines 129-169 for one file. A launch failure is caught, reported and the file skipped; a
  non-zero exit code is reported; neither stops the loop.
\<close>

definition encode_file ::
  "(string list \<Rightarrow> unit run_result) \<Rightarrow> (string \<rightharpoonup> track_selection) \<Rightarrow> string \<Rightarrow> unit run" where
  "encode_file encoder chosen_tracks file =
     then_do (emit (Stdout (''Encoding '' @ file @ ''...''))) (\<lambda>u.
     then_do (subscript_key (get_key file) (chosen_tracks (get_key file))) (\<lambda>track_info.
     then_do (emit (Encode (encode_args file track_info))) (\<lambda>u.
       case encoder (encode_args file track_info) of
         LaunchError msg \<Rightarrow>
           then_do (emit (Stderr msg)) (\<lambda>u. emit (Stderr (''skipping file'' @ [CHR 0x0A])))
       | Completed returncode out \<Rightarrow>
           then_do (if returncode \<noteq> 0
                    then emit (EncodeFailed (encode_args file track_info))
                    else return ()) (\<lambda>u.
             emit (Stdout (''Done'' @ [CHR 0x0A]))))))"

text \<open>The second loop, lines 128-169.\<close>

fun pass2 ::
  "(string list \<Rightarrow> unit run_result) \<Rightarrow> (string \<rightharpoonup> track_selection) \<Rightarrow> string list \<Rightarrow> unit run" where
  "pass2 encoder chosen_tracks [] = return ()"
| "pass2 encoder chosen_tracks (file # files) =
     then_do (encode_file encoder chosen_tracks file) (\<lambda>u. pass2 encoder chosen_tracks files)"

section \<open>The whole run\<close>

text \<open>
  How the process ends: it runs off the end of \<open>main\<close>, it calls \<open>sys.exit\<close> (with an
  optional status), or an exception nobody catches ends it with a traceback.
\<close>

datatype outcome = Finished | SysExit "int option" | Uncaught error

text \<open>
  The exit status the operating system sees. \<open>sys.exit()\<close> without an argument exits with
  status 0; an uncaught exception exits with status 1.
\<close>

fun exit_status :: "outcome \<Rightarrow> int" where
  "exit_status Finished = 0"
| "exit_status (SysExit None) = 0"
| "exit_status (SysExit (Some n)) = n"
| "exit_status (Uncaught e) = 1"

text \<open>Lines 56-61: make the output directory unless something of that name exists.\<close>

definition make_output_dir :: "world \<Rightarrow> event list \<times> bool" where
  "make_output_dir w =
     (if \<not> hardsubbed_exists w
      then (case mkdir_fails w of
              None \<Rightarrow> ([Mkdir ''hardsubbed''], True)
            | Some msg \<Rightarrow> ([Mkdir ''hardsubbed'', Stderr msg], False))
      else ([], True))"

text \<open>\<open>main\<close>, lines 55-169: the events of the run and how it ends.\<close>

definition main :: "world \<Rightarrow> reply list \<Rightarrow> event list \<times> outcome" where
  "main w rs =
     (case make_output_dir w of
        (es0, False) \<Rightarrow> (es0, SysExit None)
      | (es0, True) \<Rightarrow>
          (case pass1 (ffprobe w) (file_list (listing w)) Map.empty rs of
             (es1, Inl e) \<Rightarrow> (es0 @ es1, Uncaught e)
           | (es1, Inr (chosen_tracks, rs')) \<Rightarrow>
               (case pass2 (ffmpeg w) chosen_tracks (file_list (listing w)) of
                  (es2, Inl e) \<Rightarrow> (es0 @ es1 @ es2, Uncaught e)
                | (es2, Inr u) \<Rightarrow> (es0 @ es1 @ es2, Finished))))"

section \<open>Observations on a trace\<close>

fun is_probe :: "event \<Rightarrow> bool" where
  "is_probe (Probe args) = True"
| "is_probe ev = False"

fun is_prompt :: "event \<Rightarrow> bool" where
  "is_prompt (Prompt s) = True"
| "is_prompt ev = False"

fun is_encode :: "event \<Rightarrow> bool" where
  "is_encode (Encode args) = True"
| "is_encode ev = False"

text \<open>The argument lists of the encoder invocations of a trace, in order.\<close>

fun encode_calls :: "event list \<Rightarrow> string list list" where
  "encode_calls [] = []"
| "encode_calls (Encode args # es) = args # encode_calls es"
| "encode_calls (ev # es) = encode_calls es"

definition count_probes :: "event list \<Rightarrow> nat" where
  "count_probes es = length (filter is_probe es)"

definition count_prompts :: "event list \<Rightarrow> nat" where
  "count_prompts es = length (filter is_prompt es)"

text \<open>The invariant the specification states for a track selection.\<close>

definition selection_invariant :: "track_selection \<Rightarrow> bool" where
  "selection_invariant sel \<longleftrightarrow>
     (audio_index sel \<ge> 0 \<longleftrightarrow> audio_codec sel \<noteq> ''none'')
     \<and> (subtitle_index sel \<ge> 0 \<longleftrightarrow> subtitle_codec sel \<noteq> ''none'')"

text \<open>Operator input in which no number typed is negative.\<close>

definition nonneg_replies :: "reply list \<Rightarrow> bool" where
  "nonneg_replies rs = list_all (\<lambda>r. case r of Number k \<Rightarrow> 0 \<le> k | NotANumber \<Rightarrow> True) rs"

section \<open>Sample inputs\<close>

text \<open>Stream objects as the probe reports them, and worlds built from them.\<close>

definition h264_video :: stream where
  "h264_video = \<lparr> codec_type = Some ''video'', codec_name = Some ''h264'', channels = None,
     tags = Some Map.empty \<rparr>"

definition stereo_aac :: stream where
  "stereo_aac = \<lparr> codec_type = Some ''audio'', codec_name = Some ''aac'', channels = Some 2,
     tags = Some [''language'' \<mapsto> ''jpn''] \<rparr>"

definition surround_flac :: stream where
  "surround_flac = \<lparr> codec_type = Some ''audio'', codec_name = Some ''flac'',
     channels = Some 6,
     tags = Some [''language'' \<mapsto> ''eng'', ''title'' \<mapsto> ''Commentary''] \<rparr>"

definition nameless_audio :: stream where
  "nameless_audio = \<lparr> codec_type = Some ''audio'', codec_name = Some ''none'',
     channels = Some 2, tags = Some Map.empty \<rparr>"

text \<open>
  The name \<open>[G] S - 01 a.mkv\<close> with the episode number written in fullwidth digits
  (U+FF10 and U+FF11, three bytes each in UTF-8).
\<close>

definition fullwidth_episode :: string where
  "fullwidth_episode =
     ''[G] S - '' @ [CHR 0xEF, CHR 0xBC, CHR 0x90, CHR 0xEF, CHR 0xBC, CHR 0x91] @ '' a.mkv''"



text \<open>
  Two episodes of one series (both names give the key \<open>S\<close>); the probe reports one video
  stream and one stereo AAC audio stream, no subtitles.
\<close>

definition series_world :: world where
  "series_world = \<lparr> hardsubbed_exists = True, mkdir_fails = None,
     listing = [''[G] S - 01 a.mkv'', ''[G] S - 02 a.mkv''],
     ffprobe = (\<lambda>args. Completed 0 (JsonObject (Some [h264_video, stereo_aac]))),
     ffmpeg = (\<lambda>args. Completed 0 ()) \<rparr>"

text \<open>Two files of different keys; the probe exits with code 1 and prints nothing.\<close>

definition probe_fail_world :: world where
  "probe_fail_world = \<lparr> hardsubbed_exists = True, mkdir_fails = None,
     listing = [''a.mkv'', ''b.mkv''],
     ffprobe = (\<lambda>args. Completed 1 NotJson),
     ffmpeg = (\<lambda>args. Completed 0 ()) \<rparr>"

text \<open>One file with two audio streams, so the operator is asked.\<close>

definition two_audio_world :: world where
  "two_audio_world = \<lparr> hardsubbed_exists = True, mkdir_fails = None,
     listing = [''a.mkv''],
     ffprobe = (\<lambda>args. Completed 0
                  (JsonObject (Some [h264_video, stereo_aac, surround_flac]))),
     ffmpeg = (\<lambda>args. Completed 0 ()) \<rparr>"

text \<open>The output directory is missing and cannot be created.\<close>

definition mkdir_fail_world :: world where
  "mkdir_fail_world = \<lparr> hardsubbed_exists = False, mkdir_fails = Some ''Permission denied'',
     listing = [''a.mkv''],
     ffprobe = (\<lambda>args. Completed 0 (JsonObject (Some [h264_video, stereo_aac]))),
     ffmpeg = (\<lambda>args. Completed 1 ()) \<rparr>"

section \<open>The flag builders\<close>

text \<open>
  C1. The audio flag builder with codec "aac" and channel count 2 should return the
  stream-copy flags for stream i, without a bitrate flag. The builder compares the channel
  count with the string "2", and the probe's JSON gives the count as the integer 2, which
  Python holds unequal to it: the call returns the re-encode flags, bitrate flag included,
  for every index. The other two parts of the claim hold: codec "flac" with 6 channels gives
  the AAC re-encode flags at 192k forced to 2 channels for stream i, and codec "none" gives
  the empty list for any channel count and index.
\<close>

theorem get_audio_flags_aac_stereo_reencodes:
  "get_audio_flags (PStr ''aac'') (PInt 2) (PInt i)
     = [''-c:a'', ''aac'', ''-b:a'', ''192k'', ''-ac'', ''2'', ''-map'', ''0:a:'' @ str_int i]
   \<and> ''-b:a'' \<in> set (get_audio_flags (PStr ''aac'') (PInt 2) (PInt i))
   \<and> ''copy'' \<notin> set (get_audio_flags (PStr ''aac'') (PInt 2) (PInt i))
   \<and> get_audio_flags (PStr ''flac'') (PInt 6) (PInt i)
     = [''-c:a'', ''aac'', ''-b:a'', ''192k'', ''-ac'', ''2'', ''-map'', ''0:a:'' @ str_int i]
   \<and> get_audio_flags (PStr ''none'') ch idx = []"
  by (simp add: get_audio_flags_def)

text \<open>
  C4. For every subtitle codec, stream index and source path, the filter flag builder
  returns: for "hdmv_pgs_subtitle" the overlay graph on subtitle stream i (no text-subtitle
  filter); for a text codec, that is any codec other than the two picture formats and
  "none", such as "subrip", the \<open>subtitles\<close> burn-in filter naming the source path and the
  stream index; for "none" the null passthrough graph. In every case the graph ends with
  the scale stage that limits the height to 720, and the flags end with the mapping of the
  filtered video stream \<open>[v]\<close>.
\<close>

theorem get_filter_flags_cases:
  "get_filter_flags (PStr ''hdmv_pgs_subtitle'') (PInt i) (PStr path)
     = [''-filter_complex'', ''[0:v][0:s:'' @ str_int i @ '']overlay[burned];'' @ scale_stage,
        ''-map'', ''[v]'']
   \<and> (codec \<notin> {''dvd_subtitle'', ''hdmv_pgs_subtitle'', ''none''} \<longrightarrow>
        get_filter_flags (PStr codec) (PInt i) (PStr path)
          = [''-filter_complex'',
             ''[0:v]subtitles='' @ [CHR 0x27] @ path @ [CHR 0x27] @ '':si='' @ str_int i
               @ ''[burned];'' @ scale_stage,
             ''-map'', ''[v]''])
   \<and> get_filter_flags (PStr ''subrip'') (PInt i) (PStr path)
     = [''-filter_complex'',
        ''[0:v]subtitles='' @ [CHR 0x27] @ path @ [CHR 0x27] @ '':si='' @ str_int i
          @ ''[burned];'' @ scale_stage,
        ''-map'', ''[v]'']
   \<and> get_filter_flags (PStr ''none'') (PInt i) (PStr path)
     = [''-filter_complex'', ''[0:v]null[burned];'' @ scale_stage, ''-map'', ''[v]'']
   \<and> (\<exists>graph. get_filter_flags (PStr codec) (PInt i) (PStr path)
         = [''-filter_complex'', graph @ scale_stage, ''-map'', ''[v]''])
   \<and> scale_stage = ''[burned]scale=-16:min(720'' @ [CHR 0x5C] @ '',ih)[v]''"
  by (simp add: get_filter_flags_def scale_stage_def)

theorem get_filter_flags_cases_witness:
  "''ass'' \<notin> {''dvd_subtitle'', ''hdmv_pgs_subtitle'', ''none''}
   \<and> get_filter_flags (PStr ''ass'') (PInt 1) (PStr ''x.mkv'')
     = [''-filter_complex'',
        ''[0:v]subtitles='' @ [CHR 0x27] @ ''x.mkv'' @ [CHR 0x27] @ '':si=1[burned];''
          @ scale_stage,
        ''-map'', ''[v]'']"
  using get_filter_flags_cases [of 1 "''x.mkv''" "''ass''"]
  by (simp add: str_int_def digit_char_def)

section \<open>The series key\<close>

subsection \<open>The greedy search\<close>

lemma first_some_desc_Some:
  "first_some f (rev [1 ..< Suc m]) = Some y \<Longrightarrow>
     \<exists>n. 1 \<le> n \<and> n \<le> m \<and> f n = Some y \<and> (\<forall>k. n < k \<and> k \<le> m \<longrightarrow> f k = None)"
proof (induction m)
  case 0
  then show ?case by simp
next
  case (Suc m)
  show ?case
  proof (cases "f (Suc m)")
    case None
    with Suc.prems have "first_some f (rev [1 ..< Suc m]) = Some y" by simp
    from Suc.IH [OF this] obtain n where n: "1 \<le> n" "n \<le> m" "f n = Some y"
      "\<forall>k. n < k \<and> k \<le> m \<longrightarrow> f k = None" by blast
    have "\<forall>k. n < k \<and> k \<le> Suc m \<longrightarrow> f k = None"
      using n(4) None by (auto simp: le_Suc_eq)
    with n show ?thesis by (intro exI [of _ n]) simp
  next
    case (Some z)
    with Suc.prems have "z = y" by simp
    with Some show ?thesis by (intro exI [of _ "Suc m"]) auto
  qed
qed

lemma first_some_desc_None:
  "first_some f (rev [1 ..< Suc m]) = None \<longleftrightarrow> (\<forall>n. 1 \<le> n \<and> n \<le> m \<longrightarrow> f n = None)"
proof (induction m)
  case 0
  then show ?case by simp
next
  case (Suc m)
  then show ?case by (auto simp: le_Suc_eq split: option.splits)
qed

lemma le_length_takeWhile:
  "n \<le> length (takeWhile P s) \<longleftrightarrow> n \<le> length s \<and> list_all P (take n s)"
proof (induction s arbitrary: n)
  case Nil
  then show ?case by simp
next
  case (Cons c s)
  then show ?case by (cases n) auto
qed

lemma decode_head_bounds:
  "decode_head s = Some (cp, n) \<Longrightarrow> 0 < n \<and> n \<le> length s"
  by (cases s) (auto simp: decode_head_def Let_def split: option.splits if_splits)

lemma decode_head_prefix:
  assumes "decode_head s = Some (cp, n)"
  shows "decode_head (take n s @ r) = Some (cp, n)"
proof -
  from assms obtain b0 t bits k where
    s: "s = b0 # t" and lb: "lead_byte (of_char b0) = Some (bits, k)"
    and len: "k \<le> length t" and n: "n = Suc k"
    by (cases s) (auto simp: decode_head_def Let_def split: option.splits if_splits)
  have tk: "take k (take k t @ r) = take k t" using len by simp
  have "decode_head (b0 # take k t @ r) = decode_head (b0 # t)"
    unfolding decode_head_def using lb len by (simp add: tk)
  then show ?thesis using assms s n by simp
qed

lemma digit_len_bounds: "digit_len s = Some n \<Longrightarrow> 0 < n \<and> n \<le> length s"
  unfolding digit_len_def using decode_head_bounds [of s]
  by (auto split: option.splits if_splits)

lemma digit_len_prefix: "digit_len s = Some n \<Longrightarrow> digit_len (take n s @ r) = Some n"
  unfolding digit_len_def using decode_head_prefix [of s _ n r]
  by (auto split: option.splits if_splits)

lemma digit_len_of_prefix:
  assumes "digit_len (take n s) = Some k"
  shows "digit_len s = Some k"
proof -
  from digit_len_bounds [OF assms] have kn: "k \<le> n" "k \<le> length s" by auto
  from digit_len_prefix [OF assms, of "drop k s"] kn
  have "digit_len (take k s @ drop k s) = Some k" by (simp add: min_absorb1)
  then show ?thesis by simp
qed

lemma digit_ends_iff:
  "n \<in> set (digit_ends s) \<longleftrightarrow> n \<le> length s \<and> decimal_digits (take n s)"
proof (induction s arbitrary: n rule: digit_ends.induct)
  case (1 s)
  show ?case
  proof (cases "digit_len s")
    case None
    have "digit_len (take n s) = None"
    proof (rule ccontr)
      assume "digit_len (take n s) \<noteq> None"
      then obtain k where "digit_len (take n s) = Some k" by auto
      from digit_len_of_prefix [OF this] None show False by simp
    qed
    with None show ?thesis
      by (simp add: digit_ends.simps [of s] decimal_digits.simps [of "take n s"])
  next
    case (Some k)
    note ih = 1 [OF Some]
    from digit_len_bounds [OF Some] have kb: "0 < k" "k \<le> length s" by auto
    have pk: "digit_len (take k s @ r) = Some k" for r
      using digit_len_prefix [OF Some] .
    show ?thesis
    proof
      assume "n \<in> set (digit_ends s)"
      then consider "n = k" | m where "n = k + m" "m \<in> set (digit_ends (drop k s))"
        using Some by (auto simp: digit_ends.simps [of s])
      then show "n \<le> length s \<and> decimal_digits (take n s)"
      proof cases
        case 1
        have "digit_len (take k s) = Some k" using pk [of "[]"] by simp
        then have "decimal_digits (take k s)"
          using kb by (simp add: decimal_digits.simps [of "take k s"])
        with 1 kb show ?thesis by simp
      next
        case 2
        from ih 2(2) have m: "m \<le> length (drop k s)" "decimal_digits (take m (drop k s))"
          by auto
        have tk: "take (k + m) s = take k s @ take m (drop k s)"
          by (simp add: take_add)
        have "digit_len (take (k + m) s) = Some k" unfolding tk by (rule pk)
        moreover have "drop k (take (k + m) s) = take m (drop k s)"
          unfolding tk using kb by simp
        ultimately have "decimal_digits (take (k + m) s)"
          using m(2) by (simp add: decimal_digits.simps [of "take (k + m) s"])
        moreover have "k + m \<le> length s" using m(1) kb by simp
        ultimately show ?thesis using 2(1) by simp
      qed
    next
      assume a: "n \<le> length s \<and> decimal_digits (take n s)"
      then obtain j where j: "digit_len (take n s) = Some j"
        and rest: "drop j (take n s) = [] \<or> decimal_digits (drop j (take n s))"
        by (auto simp: decimal_digits.simps [of "take n s"] split: option.splits)
      from digit_len_bounds [OF j] a have jn: "0 < j" "j \<le> n" by auto
      from digit_len_of_prefix [OF j] Some have jk: "j = k" by simp
      from rest show "n \<in> set (digit_ends s)"
      proof
        assume "drop j (take n s) = []"
        with a jn jk have "n = k" by simp
        then show ?thesis using Some by (simp add: digit_ends.simps [of s])
      next
        assume d: "decimal_digits (drop j (take n s))"
        have dt: "drop k (take n s) = take (n - k) (drop k s)" by (simp add: drop_take)
        from d jk dt have "decimal_digits (take (n - k) (drop k s))" by simp
        moreover have "n - k \<le> length (drop k s)"
          using a by (auto intro: diff_le_mono)
        ultimately have "n - k \<in> set (digit_ends (drop k s))" using ih by simp
        moreover have "n = k + (n - k)" using jn jk by simp
        ultimately show ?thesis using Some
          by (auto simp: digit_ends.simps [of s])
      qed
    qed
  qed
qed

lemma decimal_digits_nonempty: "decimal_digits d \<Longrightarrow> d \<noteq> []"
  by (auto simp: decimal_digits.simps [of "[]"] digit_len_def decode_head_def)

lemma starts_with_iff: "starts_with p s \<longleftrightarrow> (\<exists>r. s = p @ r)"
  unfolding starts_with_def
  by (metis append_eq_conv_conj append_take_drop_id)

lemma split_at_iff:
  "n \<le> length s \<and> drop n s = r \<and> take n s = t \<longleftrightarrow> s = t @ r \<and> length t = n"
  by (metis append_eq_conv_conj append_take_drop_id length_take min.absorb2 nat_le_linear take_all)

lemma greedy_Some:
  assumes "first_some f (greedy_lengths P s) = Some y"
  shows "\<exists>n. 1 \<le> n \<and> n \<le> length s \<and> list_all P (take n s) \<and> f n = Some y
           \<and> (\<forall>k. n < k \<and> k \<le> length s \<and> list_all P (take k s) \<longrightarrow> f k = None)"
proof -
  from first_some_desc_Some [OF assms [unfolded greedy_lengths_def]]
  obtain n where n: "1 \<le> n" "n \<le> length (takeWhile P s)" "f n = Some y"
    "\<forall>k. n < k \<and> k \<le> length (takeWhile P s) \<longrightarrow> f k = None" by blast
  show ?thesis
    using n by (intro exI [of _ n]) (simp add: le_length_takeWhile)
qed

lemma greedy_None:
  "first_some f (greedy_lengths P s) = None \<longleftrightarrow>
     (\<forall>n. 1 \<le> n \<and> n \<le> length s \<and> list_all P (take n s) \<longrightarrow> f n = None)"
  unfolding greedy_lengths_def first_some_desc_None le_length_takeWhile by blast

lemma drop_append_length: "length t = n \<Longrightarrow> drop n (t @ r) = r"
  by simp

lemma take_append_length: "length t = n \<Longrightarrow> take n (t @ r) = t"
  by simp

lemma first_some_Some: "first_some f xs = Some y \<Longrightarrow> \<exists>x\<in>set xs. f x = Some y"
  by (induction xs) (auto split: option.splits)

lemma first_some_None: "first_some f xs = None \<longleftrightarrow> (\<forall>x\<in>set xs. f x = None)"
  by (induction xs) (auto split: option.splits)

lemma match_digits_iff:
  "match_digits s = Some () \<longleftrightarrow> (\<exists>d rest. digits_tail s d rest)"
proof
  assume "match_digits s = Some ()"
  from first_some_Some [OF this [unfolded match_digits_def]]
  obtain n where n: "n \<in> set (digit_ends s)" "starts_with '' '' (drop n s)"
    by (auto split: if_splits)
  from n(1) have nd: "n \<le> length s" "decimal_digits (take n s)"
    unfolding digit_ends_iff by auto
  from n(2) obtain r where r: "drop n s = '' '' @ r" unfolding starts_with_iff by blast
  have "s = take n s @ '' '' @ r" using r by (metis append_take_drop_id)
  then show "\<exists>d rest. digits_tail s d rest"
    unfolding digits_tail_def using nd(2) by blast
next
  assume "\<exists>d rest. digits_tail s d rest"
  then obtain d rest where d: "s = d @ '' '' @ rest" "decimal_digits d"
    unfolding digits_tail_def by blast
  have mem: "length d \<in> set (digit_ends s)"
    unfolding digit_ends_iff using d by simp
  have "drop (length d) s = '' '' @ rest" using d(1) by simp
  then have sw: "starts_with '' '' (drop (length d) s)" unfolding starts_with_iff by blast
  show "match_digits s = Some ()"
  proof (rule ccontr)
    assume "match_digits s \<noteq> Some ()"
    then have "match_digits s = None" by (cases "match_digits s") auto
    then have "\<forall>n\<in>set (digit_ends s). \<not> starts_with '' '' (drop n s)"
      unfolding match_digits_def first_some_None by (auto split: if_splits)
    with mem sw show False by blast
  qed
qed

lemma match_digits_None: "match_digits s = None \<longleftrightarrow> \<not> (\<exists>d rest. digits_tail s d rest)"
  using match_digits_iff [of s] by (cases "match_digits s") auto

lemma match_title_Some:
  assumes "match_title s = Some t"
  shows "(\<exists>d rest. title_tail s t d rest)
       \<and> (\<forall>t' d' rest'. title_tail s t' d' rest' \<longrightarrow> length t' \<le> length t)"
proof -
  let ?f = "\<lambda>n. if starts_with '' - '' (drop n s)
          then (case match_digits (drop (n + 3) s) of
                  Some u \<Rightarrow> Some (take n s) | None \<Rightarrow> None)
          else None"
  from greedy_Some [OF assms [unfolded match_title_def]]
  obtain n where n: "1 \<le> n" "n \<le> length s" "list_all not_newline (take n s)"
    "?f n = Some t"
    "\<forall>k. n < k \<and> k \<le> length s \<and> list_all not_newline (take k s) \<longrightarrow> ?f k = None"
    by blast
  from n(4) have sw: "starts_with '' - '' (drop n s)" and t: "t = take n s"
    and md: "match_digits (drop (n + 3) s) = Some ()"
    by (auto split: if_splits option.splits)
  from sw obtain r where r: "drop n s = '' - '' @ r" unfolding starts_with_iff by blast
  have r3: "drop (n + 3) s = r"
  proof -
    have "drop (n + 3) s = drop 3 (drop n s)" by (simp add: add.commute)
    then show ?thesis using r by simp
  qed
  from md r3 obtain d rest where d: "digits_tail r d rest"
    unfolding match_digits_iff by auto
  have s: "s = t @ '' - '' @ r" using r t by (metis append_take_drop_id)
  have tne: "t \<noteq> []" using n(1,2) t by auto
  have len_t: "length t = n" using t n(2) by simp
  have ex: "title_tail s t d rest"
    using s d tne n(3) t unfolding title_tail_def digits_tail_def by simp
  have mx: "length t' \<le> length t" if tt: "title_tail s t' d' rest'" for t' d' rest'
  proof (rule ccontr)
    assume "\<not> length t' \<le> length t"
    then have gt: "n < length t'" using len_t by simp
    from tt have s': "s = t' @ '' - '' @ d' @ '' '' @ rest'" and nn: "list_all not_newline t'"
      and dd: "decimal_digits d'" unfolding title_tail_def by auto
    have k1: "length t' \<le> length s" using s' by simp
    have k2: "take (length t') s = t'" using s' by simp
    have k3: "drop (length t') s = '' - '' @ d' @ '' '' @ rest'" using s' by simp
    have k4: "drop (length t' + 3) s = d' @ '' '' @ rest'"
    proof -
      have "drop (length t' + 3) s = drop 3 (drop (length t') s)" by (simp add: add.commute)
      then show ?thesis using k3 by simp
    qed
    have "?f (length t') = None" using n(5) gt k1 k2 nn by simp
    moreover have "starts_with '' - '' (drop (length t') s)"
      unfolding starts_with_iff using k3 by blast
    moreover have "match_digits (drop (length t' + 3) s) = Some ()"
      unfolding match_digits_iff k4 digits_tail_def using dd by blast
    ultimately show False by simp
  qed
  from ex mx show ?thesis by blast
qed

lemma match_title_None:
  assumes "match_title s = None"
  shows "\<not> title_tail s t d rest"
proof
  assume tt: "title_tail s t d rest"
  let ?f = "\<lambda>n. if starts_with '' - '' (drop n s)
          then (case match_digits (drop (n + 3) s) of
                  Some u \<Rightarrow> Some (take n s) | None \<Rightarrow> None)
          else None"
  from assms have all:
    "\<forall>n. 1 \<le> n \<and> n \<le> length s \<and> list_all not_newline (take n s) \<longrightarrow> ?f n = None"
    unfolding match_title_def greedy_None by simp
  from tt have s': "s = t @ '' - '' @ d @ '' '' @ rest" and nn: "list_all not_newline t"
    and tne: "t \<noteq> []"
    and dd: "decimal_digits d" unfolding title_tail_def by auto
  have k0: "1 \<le> length t" using tne by (cases t) auto
  have k1: "length t \<le> length s" using s' by simp
  have k2: "take (length t) s = t" using s' by simp
  have k3: "drop (length t) s = '' - '' @ d @ '' '' @ rest" using s' by simp
  have k4: "drop (length t + 3) s = d @ '' '' @ rest"
  proof -
    have "drop (length t + 3) s = drop 3 (drop (length t) s)" by (simp add: add.commute)
    then show ?thesis using k3 by simp
  qed
  have "?f (length t) = None" using all k0 k1 k2 nn by simp
  moreover have "starts_with '' - '' (drop (length t) s)"
    unfolding starts_with_iff using k3 by blast
  moreover have "match_digits (drop (length t + 3) s) = Some ()"
    unfolding match_digits_iff k4 digits_tail_def using dd by blast
  ultimately show False by simp
qed

subsection \<open>The pattern, stage by stage\<close>

lemma group_tail_at:
  assumes "group_tail s g t d rest"
  shows "1 \<le> length g \<and> length g \<le> length s \<and> list_all not_newline (take (length g) s)
       \<and> starts_with ''] '' (drop (length g) s)
       \<and> title_tail (drop (length g + 2) s) t d rest"
proof -
  from assms obtain u where u: "s = g @ ''] '' @ u" "title_tail u t d rest"
    and g: "g \<noteq> []" "list_all not_newline g" unfolding group_tail_def by blast
  have k0: "1 \<le> length g" using g(1) by (cases g) auto
  have k3: "drop (length g) s = ''] '' @ u" using u(1) by simp
  have "drop (length g + 2) s = drop 2 (drop (length g) s)" by (simp add: add.commute)
  then have k4: "drop (length g + 2) s = u" using k3 by simp
  have sw: "starts_with ''] '' (drop (length g) s)" unfolding starts_with_iff using k3 by blast
  show ?thesis using k0 k4 sw u g by simp
qed

lemma match_group_Some:
  assumes "match_group s = Some t"
  shows "\<exists>g d rest. group_tail s g t d rest
       \<and> (\<forall>g' t' d' rest'. group_tail s g' t' d' rest' \<longrightarrow>
            length g' < length g \<or> (g' = g \<and> length t' \<le> length t))"
proof -
  let ?f = "\<lambda>n. if starts_with ''] '' (drop n s) then match_title (drop (n + 2) s) else None"
  from greedy_Some [OF assms [unfolded match_group_def]]
  obtain n where n: "1 \<le> n" "n \<le> length s" "list_all not_newline (take n s)"
    "?f n = Some t"
    "\<forall>k. n < k \<and> k \<le> length s \<and> list_all not_newline (take k s) \<longrightarrow> ?f k = None"
    by blast
  define g where "g = take n s"
  from n(4) have sw: "starts_with ''] '' (drop n s)"
    and mt: "match_title (drop (n + 2) s) = Some t" by (auto split: if_splits)
  from sw obtain u where u: "drop n s = ''] '' @ u" unfolding starts_with_iff by blast
  have "drop (n + 2) s = drop 2 (drop n s)" by (simp add: add.commute)
  then have u2: "drop (n + 2) s = u" using u by simp
  from match_title_Some [OF mt] u2 obtain d rest where tt: "title_tail u t d rest"
    and tmax: "\<forall>t' d' rest'. title_tail u t' d' rest' \<longrightarrow> length t' \<le> length t" by auto
  have s: "s = g @ ''] '' @ u" using u g_def by (metis append_take_drop_id)
  have len_g: "length g = n" using g_def n(2) by simp
  have gne: "g \<noteq> []" using len_g n(1) by auto
  have ex: "group_tail s g t d rest"
    unfolding group_tail_def using gne n(3) g_def s tt by blast
  have mx: "length g' < length g \<or> (g' = g \<and> length t' \<le> length t)"
    if gt: "group_tail s g' t' d' rest'" for g' t' d' rest'
  proof -
    note at = group_tail_at [OF gt]
    have not_longer: "\<not> n < length g'"
    proof
      assume "n < length g'"
      with n(5) at have "?f (length g') = None" by blast
      with at have "match_title (drop (length g' + 2) s) = None" by (simp del: add_2_eq_Suc')
      from match_title_None [OF this] at show False by blast
    qed
    show ?thesis
    proof (cases "length g' < n")
      case True
      then show ?thesis using len_g by simp
    next
      case False
      with not_longer have eq: "length g' = n" by simp
      from gt obtain u' where u': "s = g' @ ''] '' @ u'" unfolding group_tail_def by blast
      have gg: "g' = g" using u' eq g_def by simp
      have "title_tail u t' d' rest'" using at eq u2 by simp
      with tmax have "length t' \<le> length t" by blast
      with gg show ?thesis by simp
    qed
  qed
  from ex mx show ?thesis by blast
qed

lemma match_group_None:
  assumes "match_group s = None"
  shows "\<not> group_tail s g t d rest"
proof
  assume gt: "group_tail s g t d rest"
  note at = group_tail_at [OF gt]
  let ?f = "\<lambda>n. if starts_with ''] '' (drop n s) then match_title (drop (n + 2) s) else None"
  from assms have
    "\<forall>n. 1 \<le> n \<and> n \<le> length s \<and> list_all not_newline (take n s) \<longrightarrow> ?f n = None"
    unfolding match_group_def greedy_None by simp
  with at have "?f (length g) = None" by blast
  with at have "match_title (drop (length g + 2) s) = None" by (simp del: add_2_eq_Suc')
  from match_title_None [OF this] at show False by blast
qed

lemma matches_pattern_group_tail:
  "matches_pattern file g t d rest \<longleftrightarrow> (\<exists>s. file = CHR ''['' # s \<and> group_tail s g t d rest)"
  unfolding matches_pattern_def group_tail_def title_tail_def by auto

text \<open>
  C5. When a filename decomposes as \<open>[group] Title - NN <anything>\<close>, with NN one or
  more decimal digits of any script, the key is the Title segment the pattern captures: the
  name decomposes with the key as its Title, and this is the greedy capture, the one with
  the longest group and, for that group, the longest title. When the filename does not
  decompose, the key is the filename unchanged. \<open>get_key\<close> is a total function to
  strings: there is no error case.
\<close>

theorem get_key_pattern:
  "((\<exists>g t d rest. matches_pattern file g t d rest) \<longrightarrow>
      (\<exists>g d rest. matches_pattern file g (get_key file) d rest
         \<and> (\<forall>g' t' d' rest'. matches_pattern file g' t' d' rest' \<longrightarrow>
              length g' < length g \<or> (g' = g \<and> length t' \<le> length (get_key file)))))
   \<and> (\<not> (\<exists>g t d rest. matches_pattern file g t d rest) \<longrightarrow> get_key file = file)"
proof (cases "re_match_group2 file")
  case None
  have "\<not> matches_pattern file g t d rest" for g t d rest
  proof
    assume "matches_pattern file g t d rest"
    then obtain s where s: "file = CHR ''['' # s" "group_tail s g t d rest"
      unfolding matches_pattern_group_tail by blast
    with None have "match_group s = None" by (simp add: re_match_group2_def)
    from match_group_None [OF this] s(2) show False by blast
  qed
  moreover have "get_key file = file" using None by (simp add: get_key_def)
  ultimately show ?thesis by blast
next
  case (Some k)
  then obtain s where s: "file = CHR ''['' # s" "match_group s = Some k"
    by (auto simp: re_match_group2_def split: list.splits if_splits)
  have key: "get_key file = k" using Some by (simp add: get_key_def)
  from match_group_Some [OF s(2)] obtain g d rest where gt: "group_tail s g k d rest"
    and mx: "\<forall>g' t' d' rest'. group_tail s g' t' d' rest' \<longrightarrow>
            length g' < length g \<or> (g' = g \<and> length t' \<le> length k)" by blast
  have m: "matches_pattern file g k d rest"
    unfolding matches_pattern_group_tail using s(1) gt by blast
  have "\<forall>g' t' d' rest'. matches_pattern file g' t' d' rest' \<longrightarrow>
              length g' < length g \<or> (g' = g \<and> length t' \<le> length k)"
    using mx s(1) unfolding matches_pattern_group_tail by auto
  with m key show ?thesis by blast
qed

theorem get_key_pattern_witness:
  "matches_pattern ''[G] Show - 01 [720p].mkv'' ''G'' ''Show'' ''01'' ''[720p].mkv''
   \<and> (\<exists>g d rest. matches_pattern ''[G] Show - 01 [720p].mkv'' g
          (get_key ''[G] Show - 01 [720p].mkv'') d rest)
   \<and> get_key ''[G] Show - 01 [720p].mkv'' = ''Show''
   \<and> matches_pattern fullwidth_episode ''G'' ''S''
        [CHR 0xEF, CHR 0xBC, CHR 0x90, CHR 0xEF, CHR 0xBC, CHR 0x91] ''a.mkv''
   \<and> (\<exists>g d rest. matches_pattern fullwidth_episode g (get_key fullwidth_episode) d rest)
   \<and> get_key fullwidth_episode = ''S''
   \<and> \<not> (\<exists>g t d rest. matches_pattern ''movie.mkv'' g t d rest)
   \<and> get_key ''movie.mkv'' = ''movie.mkv''"
proof -
  have d1: "decimal_digits ''01''" by code_simp
  have d2: "decimal_digits [CHR 0xEF, CHR 0xBC, CHR 0x90, CHR 0xEF, CHR 0xBC, CHR 0x91]"
    by code_simp
  have m: "matches_pattern ''[G] Show - 01 [720p].mkv'' ''G'' ''Show'' ''01'' ''[720p].mkv''"
    using d1 by (simp add: matches_pattern_def not_newline_def)
  then have ex: "\<exists>g t d rest. matches_pattern ''[G] Show - 01 [720p].mkv'' g t d rest"
    by blast
  have k: "get_key ''[G] Show - 01 [720p].mkv'' = ''Show''" by code_simp
  have mf: "matches_pattern fullwidth_episode ''G'' ''S''
        [CHR 0xEF, CHR 0xBC, CHR 0x90, CHR 0xEF, CHR 0xBC, CHR 0x91] ''a.mkv''"
    using d2 by (simp add: matches_pattern_def not_newline_def fullwidth_episode_def)
  then have exf: "\<exists>g t d rest. matches_pattern fullwidth_episode g t d rest"
    by blast
  have kf: "get_key fullwidth_episode = ''S''" by code_simp
  have n: "\<not> (\<exists>g t d rest. matches_pattern ''movie.mkv'' g t d rest)"
    by (simp add: matches_pattern_def)
  from get_key_pattern [of "''[G] Show - 01 [720p].mkv''"] ex
  have c: "\<exists>g d rest. matches_pattern ''[G] Show - 01 [720p].mkv'' g
          (get_key ''[G] Show - 01 [720p].mkv'') d rest" by blast
  from get_key_pattern [of fullwidth_episode] exf
  have cf: "\<exists>g d rest. matches_pattern fullwidth_episode g (get_key fullwidth_episode) d rest"
    by blast
  from get_key_pattern [of "''movie.mkv''"] n
  have i: "get_key ''movie.mkv'' = ''movie.mkv''" by blast
  from m c k mf cf kf n i show ?thesis by blast
qed

section \<open>Computations: sequencing and results\<close>

lemma then_do_Inr:
  "then_do m f = (es, Inr y) \<longleftrightarrow>
     (\<exists>es1 x es2. m = (es1, Inr x) \<and> f x = (es2, Inr y) \<and> es = es1 @ es2)"
  unfolding then_do_def
  by (cases m; cases "snd m") (auto split: prod.splits sum.splits)

lemma then_do_return [simp]: "then_do (return x) f = f x"
  by (simp add: then_do_def return_def split: prod.splits)

lemma then_do_raise [simp]: "then_do (raise e) f = raise e"
  by (simp add: then_do_def raise_def)

lemma then_do_emit [simp]: "then_do (emit ev) f = (ev # fst (f ()), snd (f ()))"
  by (simp add: then_do_def emit_def split: prod.splits)

lemma run_simps [simp]:
  "fst (return x) = []" "snd (return x) = Inr x"
  "fst (raise e) = []" "snd (raise e) = Inl e"
  "fst (emit ev) = [ev]" "snd (emit ev) = Inr ()"
  by (simp_all add: return_def raise_def emit_def)

lemma then_do_Pair_Inr [simp]: "then_do (es, Inr x) f = (es @ fst (f x), snd (f x))"
  by (simp add: then_do_def split: prod.splits)

lemma then_do_Pair_Inl [simp]: "then_do (es, Inl e) f = (es, Inl e)"
  by (simp add: then_do_def)

lemma fst_then_do:
  "fst (then_do m f) = (case snd m of Inl e \<Rightarrow> fst m | Inr x \<Rightarrow> fst m @ fst (f x))"
  unfolding then_do_def by (cases m) (auto split: sum.splits prod.splits)

lemma snd_then_do:
  "snd (then_do m f) = (case snd m of Inl e \<Rightarrow> Inl e | Inr x \<Rightarrow> snd (f x))"
  unfolding then_do_def by (cases m) (auto split: sum.splits prod.splits)



lemma py_index_mem: "py_index xs k = Some x \<Longrightarrow> x \<in> set xs"
  by (auto simp: py_index_def Let_def split: if_splits)

section \<open>The track resolver\<close>

lemma read_choice_cases:
  "read_choice [] = ([Prompt ''Choice: ''], Inl EOFError)"
  "read_choice (Number k # rs) = ([Prompt ''Choice: ''], Inr (k, rs))"
  "read_choice (NotANumber # rs) = ([Prompt ''Choice: ''], Inl ValueError)"
  by (simp_all add: read_choice_def return_def raise_def)

lemma count_prompts_simps [simp]:
  "count_prompts [] = 0"
  "count_prompts (Prompt s # es) = Suc (count_prompts es)"
  "count_prompts (Stdout s # es) = count_prompts es"
  "count_prompts (xs @ ys) = count_prompts xs + count_prompts ys"
  by (simp_all add: count_prompts_def)












section \<open>The invariant of a track selection\<close>

lemma nonneg_replies_iff:
  "nonneg_replies rs \<longleftrightarrow> (\<forall>k. Number k \<in> set rs \<longrightarrow> 0 \<le> k)"
  unfolding nonneg_replies_def list_all_iff
  by (auto split: reply.splits)

lemma snd_then_do_Inr:
  "snd (then_do m f) = Inr y \<longleftrightarrow> (\<exists>x. snd m = Inr x \<and> snd (f x) = Inr y)"
  by (cases m; cases "snd m") (auto simp: then_do_def split: prod.splits)

lemma read_choice_Inr:
  "snd (read_choice rs) = Inr (k, rs') \<Longrightarrow> rs = Number k # rs'"
  by (auto simp: read_choice_def return_def raise_def emit_def then_do_def
      split: list.splits reply.splits)

lemma subscript_index_Inr:
  "snd (subscript_index xs k) = Inr x \<Longrightarrow> py_index xs k = Some x"
  by (auto simp: subscript_index_def return_def raise_def split: option.splits)

lemma subscript_key_Inr:
  "snd (subscript_key name field) = Inr v \<Longrightarrow> field = Some v"
  by (auto simp: subscript_key_def return_def raise_def split: option.splits)


lemma select_audio_inv:
  assumes "snd (select_audio key cands rs) = Inr ((i, ch, cd), rs1)"
    and "nonneg_replies rs"
    and "\<forall>st\<in>set cands. codec_name st \<noteq> Some ''none''"
  shows "(0 \<le> i \<longleftrightarrow> cd \<noteq> ''none'') \<and> nonneg_replies rs1"
proof -
  consider "length cands > 1" | "length cands = 1" | "cands = []"
    by (cases cands) auto
  then show ?thesis
  proof cases
    case 1
    with assms(1) obtain st where
      rc: "rs = Number i # rs1" and ix: "py_index cands i = Some st"
      and cn: "codec_name st = Some cd"
      unfolding select_audio_def
      by (auto simp: snd_then_do_Inr dest!: read_choice_Inr subscript_index_Inr
          subscript_key_Inr)
    from rc assms(2) have "0 \<le> i" "nonneg_replies rs1"
      by (auto simp: nonneg_replies_iff)
    moreover from py_index_mem [OF ix] assms(3) cn have "cd \<noteq> ''none''" by auto
    ultimately show ?thesis by simp
  next
    case 2
    with assms(1) obtain st where
      i: "i = 0" "rs1 = rs" and ix: "py_index cands 0 = Some st"
      and cn: "codec_name st = Some cd"
      unfolding select_audio_def
      by (auto simp: snd_then_do_Inr dest!: subscript_index_Inr subscript_key_Inr)
    from py_index_mem [OF ix] assms(3) cn have "cd \<noteq> ''none''" by auto
    with i assms(2) show ?thesis by simp
  next
    case 3
    with assms(1,2) show ?thesis by (simp add: select_audio_def)
  qed
qed

lemma select_subtitle_inv:
  assumes "snd (select_subtitle key cands rs) = Inr ((i, cd), rs1)"
    and "nonneg_replies rs"
    and "\<forall>st\<in>set cands. codec_name st \<noteq> Some ''none''"
  shows "(0 \<le> i \<longleftrightarrow> cd \<noteq> ''none'') \<and> nonneg_replies rs1"
proof -
  consider "length cands > 1" | "length cands = 1" | "cands = []"
    by (cases cands) auto
  then show ?thesis
  proof cases
    case 1
    with assms(1) obtain st where
      rc: "rs = Number i # rs1" and ix: "py_index cands i = Some st"
      and cn: "codec_name st = Some cd"
      unfolding select_subtitle_def
      by (auto simp: snd_then_do_Inr dest!: read_choice_Inr subscript_index_Inr
          subscript_key_Inr)
    from rc assms(2) have "0 \<le> i" "nonneg_replies rs1"
      by (auto simp: nonneg_replies_iff)
    moreover from py_index_mem [OF ix] assms(3) cn have "cd \<noteq> ''none''" by auto
    ultimately show ?thesis by simp
  next
    case 2
    with assms(1) obtain st where
      i: "i = 0" "rs1 = rs" and ix: "py_index cands 0 = Some st"
      and cn: "codec_name st = Some cd"
      unfolding select_subtitle_def
      by (auto simp: snd_then_do_Inr dest!: subscript_index_Inr subscript_key_Inr)
    from py_index_mem [OF ix] assms(3) cn have "cd \<noteq> ''none''" by auto
    with i assms(2) show ?thesis by simp
  next
    case 3
    with assms(1,2) show ?thesis by (simp add: select_subtitle_def)
  qed
qed

lemma streams_of_type_subset:
  "snd (streams_of_type ty sts) = Inr r \<Longrightarrow> set r \<subseteq> set sts"
proof (induction sts arbitrary: r)
  case Nil
  then show ?case by (simp add: return_def)
next
  case (Cons st sts)
  from Cons.prems obtain rest where
    "snd (streams_of_type ty sts) = Inr rest" "r = rest \<or> r = st # rest"
    by (auto simp: snd_then_do_Inr split: if_splits)
  with Cons.IH show ?case by auto
qed

text \<open>
  C7, as stated, fails: every track selection produced by resolution would satisfy
  audio_index \<ge> 0 iff audio_codec \<noteq> "none", and the same for subtitles, for any candidate
  lists and any integer typed by the operator. The operator's integer is not validated
  (the comment on lines 70-72 leaves valid 0-based indices to the operator): with two audio
  candidates and the input -1, Python's subscript takes the last candidate, so the
  selection has index -1 and codec "flac". A descriptor whose codec name is itself "none"
  gives index 0 with codec "none".
\<close>

theorem resolve_negative_choice_counterexample:
  "snd (resolve ''K'' [stereo_aac, surround_flac] [Number (- 1)])
     = Inr (\<lparr> audio_index = - 1, subtitle_index = - 1, audio_codec = ''flac'',
              audio_channels = 6, subtitle_codec = ''none'' \<rparr>, [])
   \<and> \<not> selection_invariant \<lparr> audio_index = - 1, subtitle_index = - 1,
          audio_codec = ''flac'', audio_channels = 6, subtitle_codec = ''none'' \<rparr>
   \<and> snd (resolve ''K'' [nameless_audio] [])
     = Inr (\<lparr> audio_index = 0, subtitle_index = - 1, audio_codec = ''none'',
              audio_channels = 2, subtitle_codec = ''none'' \<rparr>, [])
   \<and> \<not> selection_invariant \<lparr> audio_index = 0, subtitle_index = - 1,
          audio_codec = ''none'', audio_channels = 2, subtitle_codec = ''none'' \<rparr>"
  by code_simp

text \<open>
  C7, amended. Every track selection produced by resolution, for candidate lists in which
  no descriptor has the codec name "none" and for operator input whose integers are all
  non-negative, satisfies audio_index \<ge> 0 iff audio_codec \<noteq> "none", and subtitle_index
  \<ge> 0 iff subtitle_codec \<noteq> "none".
\<close>

theorem resolve_invariant:
  assumes "snd (resolve key streams rs) = Inr (sel, rs')"
    and "nonneg_replies rs"
    and "\<forall>st\<in>set streams. codec_name st \<noteq> Some ''none''"
  shows "selection_invariant sel"
proof -
  from assms(1) obtain auds subs ai ach acd rs1 si scd where
    a: "snd (streams_of_type ''audio'' streams) = Inr auds"
    and s: "snd (streams_of_type ''subtitle'' streams) = Inr subs"
    and sa: "snd (select_audio key auds rs) = Inr ((ai, ach, acd), rs1)"
    and ss: "snd (select_subtitle key subs rs1) = Inr ((si, scd), rs')"
    and sel: "sel = \<lparr> audio_index = ai, subtitle_index = si, audio_codec = acd,
                 audio_channels = ach, subtitle_codec = scd \<rparr>"
    unfolding resolve_def
    by (auto simp: snd_then_do_Inr)
  from streams_of_type_subset [OF a] assms(3)
  have na: "\<forall>st\<in>set auds. codec_name st \<noteq> Some ''none''" by blast
  from streams_of_type_subset [OF s] assms(3)
  have ns: "\<forall>st\<in>set subs. codec_name st \<noteq> Some ''none''" by blast
  from select_audio_inv [OF sa assms(2) na]
  have A: "0 \<le> ai \<longleftrightarrow> acd \<noteq> ''none''" and r1: "nonneg_replies rs1" by auto
  from select_subtitle_inv [OF ss r1 ns]
  have S: "0 \<le> si \<longleftrightarrow> scd \<noteq> ''none''" by auto
  from A S sel show ?thesis by (simp add: selection_invariant_def)
qed

theorem resolve_invariant_witness:
  "snd (resolve ''K'' [h264_video, stereo_aac, surround_flac] [Number 1])
     = Inr (\<lparr> audio_index = 1, subtitle_index = - 1, audio_codec = ''flac'',
              audio_channels = 6, subtitle_codec = ''none'' \<rparr>, [])
   \<and> nonneg_replies [Number 1]
   \<and> list_all (\<lambda>st. codec_name st \<noteq> Some ''none'') [h264_video, stereo_aac, surround_flac]
   \<and> selection_invariant \<lparr> audio_index = 1, subtitle_index = - 1, audio_codec = ''flac'',
              audio_channels = 6, subtitle_codec = ''none'' \<rparr>"
proof -
  have r: "snd (resolve ''K'' [h264_video, stereo_aac, surround_flac] [Number 1])
     = Inr (\<lparr> audio_index = 1, subtitle_index = - 1, audio_codec = ''flac'',
              audio_channels = 6, subtitle_codec = ''none'' \<rparr>, [])" by code_simp
  have n: "nonneg_replies [Number 1]" by (simp add: nonneg_replies_def)
  have c: "\<forall>st\<in>set [h264_video, stereo_aac, surround_flac]. codec_name st \<noteq> Some ''none''"
    by (simp add: h264_video_def stereo_aac_def surround_flac_def)
  from resolve_invariant [OF r n c] r n c show ?thesis unfolding list_all_iff by blast
qed

section \<open>The two passes\<close>

lemma then_do_events:
  assumes "list_all P (fst m)" and "\<And>x. list_all P (fst (f x))"
  shows "list_all P (fst (then_do m f))"
  using assms by (cases m; cases "snd m") (auto simp: fst_then_do)

lemma events_basic:
  "list_all P (fst (return x))"
  "list_all P (fst (raise err))"
  "list_all P (fst (subscript_key name field))"
  "list_all P (fst (subscript_index xs k))"
  by (simp_all add: subscript_key_def subscript_index_def split: option.splits)

lemma events_emit: "P ev \<Longrightarrow> list_all P (fst (emit ev))"
  by simp

lemma print_stream_info_from_events:
  "list_all (\<lambda>e. \<not> is_encode e) (fst (print_stream_info_from i sts))"
proof (induction sts arbitrary: i)
  case Nil
  show ?case by simp
next
  case (Cons st sts)
  show ?case
    unfolding print_stream_info_from.simps Let_def
    by (intro then_do_events events_basic events_emit Cons.IH) simp
qed

lemma streams_of_type_events: "fst (streams_of_type ty sts) = []"
proof (induction sts)
  case Nil
  show ?case by simp
next
  case (Cons st sts)
  then show ?case
    by (simp add: fst_then_do subscript_key_def split: sum.splits option.splits)
qed

lemma read_choice_events: "list_all (\<lambda>e. \<not> is_encode e) (fst (read_choice rs))"
  by (cases rs rule: list.exhaust; (cases "hd rs")?) (simp_all add: read_choice_cases)


lemma select_audio_events:
  "list_all (\<lambda>e. \<not> is_encode e) (fst (select_audio key cands rs))"
  unfolding select_audio_def print_stream_info_def
  by (auto intro!: then_do_events events_basic events_emit print_stream_info_from_events
      read_choice_events split: prod.splits)

lemma select_subtitle_events:
  "list_all (\<lambda>e. \<not> is_encode e) (fst (select_subtitle key cands rs))"
  unfolding select_subtitle_def print_stream_info_def
  by (auto intro!: then_do_events events_basic events_emit print_stream_info_from_events
      read_choice_events split: prod.splits)

lemma resolve_events: "list_all (\<lambda>e. \<not> is_encode e) (fst (resolve key streams rs))"
  unfolding resolve_def
  by (auto intro!: then_do_events events_basic select_audio_events select_subtitle_events
      simp: streams_of_type_events split: prod.splits)

lemma probe_and_resolve_events:
  "list_all (\<lambda>e. \<not> is_encode e) (fst (probe_and_resolve probe key file rs))"
  unfolding probe_and_resolve_def
  by (auto intro!: then_do_events events_basic events_emit resolve_events
      split: run_result.splits probe_stdout.splits option.splits)

lemma pass1_events:
  "list_all (\<lambda>e. \<not> is_encode e) (fst (pass1 probe files chosen rs))"
proof (induction files arbitrary: chosen rs)
  case Nil
  show ?case by simp
next
  case (Cons x xs)
  show ?case
  proof (cases "chosen (get_key x)")
    case None
    then show ?thesis
      by (auto simp: Let_def intro!: then_do_events probe_and_resolve_events Cons.IH
          split: prod.splits)
  next
    case (Some sel)
    then show ?thesis using Cons.IH by (simp add: Let_def)
  qed
qed

lemma encode_file_events:
  "list_all (\<lambda>e. \<not> is_probe e \<and> \<not> is_prompt e) (fst (encode_file encoder chosen file))"
  unfolding encode_file_def
  by (auto intro!: then_do_events events_basic events_emit split: run_result.splits)

lemma pass2_events:
  "list_all (\<lambda>e. \<not> is_probe e \<and> \<not> is_prompt e) (fst (pass2 encoder chosen files))"
proof (induction files)
  case Nil
  show ?case by simp
next
  case (Cons x xs)
  show ?case
    unfolding pass2.simps
    by (intro then_do_events encode_file_events Cons.IH)
qed

lemma pass1_resolves_all:
  "snd (pass1 probe files chosen rs) = Inr (chosen', rs') \<Longrightarrow>
     (\<forall>f\<in>set files. get_key f \<in> dom chosen') \<and> chosen \<subseteq>\<^sub>m chosen'"
proof (induction files arbitrary: chosen rs)
  case Nil
  then show ?case by simp
next
  case (Cons x xs)
  show ?case
  proof (cases "chosen (get_key x)")
    case None
    with Cons.prems obtain sel rs1 where
      step: "snd (pass1 probe xs (chosen(get_key x \<mapsto> sel)) rs1) = Inr (chosen', rs')"
      by (auto simp: Let_def snd_then_do_Inr)
    from Cons.IH [OF step] have
      all: "\<forall>f\<in>set xs. get_key f \<in> dom chosen'"
      and le: "chosen(get_key x \<mapsto> sel) \<subseteq>\<^sub>m chosen'" by blast+
    from le have "get_key x \<in> dom chosen'"
      by (auto simp: map_le_def dom_def split: if_splits)
    moreover from le None have "chosen \<subseteq>\<^sub>m chosen'"
      by (auto simp: map_le_def dom_def split: if_splits)
    ultimately show ?thesis using all by simp
  next
    case (Some sel)
    with Cons.prems have
      step: "snd (pass1 probe xs chosen rs) = Inr (chosen', rs')"
      by (simp add: Let_def)
    from Cons.IH [OF step] have
      all: "\<forall>f\<in>set xs. get_key f \<in> dom chosen'" and le: "chosen \<subseteq>\<^sub>m chosen'" by auto
    from le Some have "get_key x \<in> dom chosen'"
      by (auto simp: map_le_def dom_def)
    with all le show ?thesis by simp
  qed
qed

lemma encode_calls_append:
  "encode_calls (xs @ ys) = encode_calls xs @ encode_calls ys"
  by (induction xs rule: encode_calls.induct) simp_all

lemma encode_file_resolved:
  assumes "chosen (get_key name) = Some sel"
  shows "snd (encode_file encoder chosen name) = Inr ()"
    and "encode_calls (fst (encode_file encoder chosen name)) = [encode_args name sel]"
  using assms
  by (simp_all add: encode_file_def subscript_key_def split: run_result.splits)

lemma pass2_resolved:
  assumes "\<forall>f\<in>set files. get_key f \<in> dom chosen"
  shows "snd (pass2 encoder chosen files) = Inr ()
       \<and> encode_calls (fst (pass2 encoder chosen files))
           = map (\<lambda>f. encode_args f (the (chosen (get_key f)))) files"
  using assms
proof (induction files)
  case Nil
  show ?case by simp
next
  case (Cons x xs)
  from Cons.prems obtain sel where sel: "chosen (get_key x) = Some sel" by auto
  from Cons.prems have rest: "\<forall>f\<in>set xs. get_key f \<in> dom chosen" by simp
  note ih = Cons.IH [OF rest]
  note ef = encode_file_resolved
    [where chosen = chosen and name = x and sel = sel and encoder = encoder, OF sel]
  show ?case
    using ih ef sel by (simp add: fst_then_do snd_then_do encode_calls_append)
qed

lemma make_output_dir_events: "list_all (\<lambda>e. \<not> is_encode e) (fst (make_output_dir w))"
  by (simp add: make_output_dir_def split: option.splits)

lemma encode_calls_none: "list_all (\<lambda>e. \<not> is_encode e) es \<Longrightarrow> encode_calls es = []"
  by (induction es rule: encode_calls.induct) simp_all


lemma main_cases:
  obtains (mkdir_failed) es0 where "make_output_dir w = (es0, False)"
      "main w rs = (es0, SysExit None)"
  | (pass1_raised) es0 es1 e where "make_output_dir w = (es0, True)"
      "pass1 (ffprobe w) (file_list (listing w)) Map.empty rs = (es1, Inl e)"
      "main w rs = (es0 @ es1, Uncaught e)"
  | (encoded) es0 es1 chosen rs' where "make_output_dir w = (es0, True)"
      "pass1 (ffprobe w) (file_list (listing w)) Map.empty rs = (es1, Inr (chosen, rs'))"
      "main w rs = (es0 @ es1 @ fst (pass2 (ffmpeg w) chosen (file_list (listing w))),
                    case snd (pass2 (ffmpeg w) chosen (file_list (listing w))) of
                      Inl e \<Rightarrow> Uncaught e | Inr u \<Rightarrow> Finished)"
proof -
  obtain es0 ok where m: "make_output_dir w = (es0, ok)" by (cases "make_output_dir w")
  obtain es1 r where p: "pass1 (ffprobe w) (file_list (listing w)) Map.empty rs = (es1, r)"
    by (cases "pass1 (ffprobe w) (file_list (listing w)) Map.empty rs")
  show ?thesis
  proof (cases ok)
    case False
    with m have "main w rs = (es0, SysExit None)" by (simp add: main_def)
    with m False show ?thesis using mkdir_failed by simp
  next
    case True
    show ?thesis
    proof (cases r)
      case (Inl e)
      with m p True have "main w rs = (es0 @ es1, Uncaught e)" by (simp add: main_def)
      with m p True Inl show ?thesis using pass1_raised by simp
    next
      case (Inr cr)
      obtain chosen rs' where cr: "cr = (chosen, rs')" by (cases cr)
      have "main w rs = (es0 @ es1 @ fst (pass2 (ffmpeg w) chosen (file_list (listing w))),
                    case snd (pass2 (ffmpeg w) chosen (file_list (listing w))) of
                      Inl e \<Rightarrow> Uncaught e | Inr u \<Rightarrow> Finished)"
        using m p True Inr cr
        by (simp add: main_def split: prod.splits sum.splits)
      with m p True Inr cr show ?thesis using encoded by simp
    qed
  qed
qed

text \<open>
  C6. In every run in which an encoder invocation occurs, the first pass has completed
  before it: the first pass returned the registry, every file of the list has its key in
  the registry, the trace is the events of the directory step and of the first pass
  (none of which is an encoder invocation) followed by the events of the second pass (none
  of which is a probe or a prompt), and each encoder invocation is built from the registry
  entry of its file's key. A run whose first pass raises encodes nothing.
\<close>

theorem two_pass_order:
  assumes "encode_calls (fst (main w rs)) \<noteq> []"
  shows "\<exists>chosen rs' es1.
       pass1 (ffprobe w) (file_list (listing w)) Map.empty rs = (es1, Inr (chosen, rs'))
     \<and> list_all (\<lambda>f. get_key f \<in> dom chosen) (file_list (listing w))
     \<and> fst (main w rs) = (fst (make_output_dir w) @ es1)
          @ fst (pass2 (ffmpeg w) chosen (file_list (listing w)))
     \<and> list_all (\<lambda>e. \<not> is_encode e) (fst (make_output_dir w) @ es1)
     \<and> list_all (\<lambda>e. \<not> is_probe e \<and> \<not> is_prompt e)
          (fst (pass2 (ffmpeg w) chosen (file_list (listing w))))
     \<and> encode_calls (fst (main w rs))
          = map (\<lambda>f. encode_args f (the (chosen (get_key f)))) (file_list (listing w))"
proof (cases rule: main_cases [of w rs])
  case (mkdir_failed es0)
  from make_output_dir_events [of w] mkdir_failed(1)
  have "list_all (\<lambda>e. \<not> is_encode e) es0" by simp
  from encode_calls_none [OF this] assms mkdir_failed(2) show ?thesis by simp
next
  case (pass1_raised es0 es1 e)
  from make_output_dir_events [of w] pass1_raised(1)
  have "list_all (\<lambda>e. \<not> is_encode e) es0" by simp
  moreover from pass1_events [of "ffprobe w" "file_list (listing w)" Map.empty rs]
    pass1_raised(2)
  have "list_all (\<lambda>e. \<not> is_encode e) es1" by simp
  ultimately have "list_all (\<lambda>e. \<not> is_encode e) (es0 @ es1)" by simp
  from encode_calls_none [OF this] assms pass1_raised(3) show ?thesis by simp
next
  case (encoded es0 es1 chosen rs')
  let ?files = "file_list (listing w)"
  let ?es2 = "fst (pass2 (ffmpeg w) chosen ?files)"
  from make_output_dir_events [of w] encoded(1)
  have q0: "list_all (\<lambda>e. \<not> is_encode e) es0" by simp
  from pass1_events [of "ffprobe w" ?files Map.empty rs] encoded(2)
  have q1: "list_all (\<lambda>e. \<not> is_encode e) es1" by simp
  from q0 q1 have q01: "list_all (\<lambda>e. \<not> is_encode e) (es0 @ es1)" by simp
  from encoded(2) have "snd (pass1 (ffprobe w) ?files Map.empty rs) = Inr (chosen, rs')"
    by simp
  from pass1_resolves_all [OF this]
  have dom: "\<forall>f\<in>set ?files. get_key f \<in> dom chosen" by simp
  from pass2_resolved [OF dom, of "ffmpeg w"]
  have calls: "encode_calls ?es2 = map (\<lambda>f. encode_args f (the (chosen (get_key f)))) ?files"
    by simp
  have tr: "fst (main w rs) = (es0 @ es1) @ ?es2" using encoded(3) by simp
  have "encode_calls (fst (main w rs)) = encode_calls ?es2"
    unfolding tr using encode_calls_none [OF q0] encode_calls_none [OF q1]
    by (simp add: encode_calls_append)
  with calls have c: "encode_calls (fst (main w rs))
      = map (\<lambda>f. encode_args f (the (chosen (get_key f)))) ?files" by simp
  from encoded(1) have e0: "fst (make_output_dir w) = es0" by simp
  show ?thesis
    using encoded(2) dom tr q01 pass2_events [of "ffmpeg w" chosen ?files] c
    unfolding e0 list_all_iff by blast
qed

theorem two_pass_order_witness:
  "encode_calls (fst (main series_world [])) \<noteq> []
   \<and> (\<exists>chosen rs' es1.
       pass1 (ffprobe series_world) (file_list (listing series_world)) Map.empty []
         = (es1, Inr (chosen, rs'))
     \<and> list_all (\<lambda>f. get_key f \<in> dom chosen) (file_list (listing series_world))
     \<and> fst (main series_world []) = (fst (make_output_dir series_world) @ es1)
          @ fst (pass2 (ffmpeg series_world) chosen (file_list (listing series_world)))
     \<and> list_all (\<lambda>e. \<not> is_encode e) (fst (make_output_dir series_world) @ es1)
     \<and> list_all (\<lambda>e. \<not> is_probe e \<and> \<not> is_prompt e)
          (fst (pass2 (ffmpeg series_world) chosen (file_list (listing series_world))))
     \<and> encode_calls (fst (main series_world []))
          = map (\<lambda>f. encode_args f (the (chosen (get_key f))))
              (file_list (listing series_world)))"
proof -
  have h: "encode_calls (fst (main series_world [])) \<noteq> []" by code_simp
  from two_pass_order [OF h] h show ?thesis by blast
qed

lemma main_outcome:
  assumes "hardsubbed_exists w \<or> mkdir_fails w = None"
  shows "snd (main w rs)
        = (case snd (pass1 (ffprobe w) (file_list (listing w)) Map.empty rs) of
             Inl e \<Rightarrow> Uncaught e | Inr r \<Rightarrow> Finished)"
proof -
  from assms have mk: "snd (make_output_dir w) = True"
    by (auto simp: make_output_dir_def)
  show ?thesis
  proof (cases rule: main_cases [of w rs])
    case (mkdir_failed es0)
    with mk show ?thesis by simp
  next
    case (pass1_raised es0 es1 e)
    then show ?thesis by simp
  next
    case (encoded es0 es1 chosen rs')
    from encoded(2)
    have "snd (pass1 (ffprobe w) (file_list (listing w)) Map.empty rs) = Inr (chosen, rs')"
      by simp
    from pass1_resolves_all [OF this]
    have dom: "\<forall>f\<in>set (file_list (listing w)). get_key f \<in> dom chosen" by simp
    from pass2_resolved [OF dom, of "ffmpeg w"] encoded show ?thesis by simp
  qed
qed

text \<open>
  C8, as stated, fails in its second half: a run in which the directory step succeeds does
  not always fall through to normal termination. Input that \<open>int\<close> rejects, typed at a
  prompt, ends the run with an uncaught \<open>ValueError\<close> (exit status 1) before any encode.
  On the first half, when \<open>os.mkdir\<close> fails the script calls \<open>sys.exit()\<close> without an
  argument, which is exit status 0.
\<close>

theorem exit_behaviour_counterexample:
  "hardsubbed_exists two_audio_world
   \<and> main two_audio_world [NotANumber]
     = ([Probe (probe_args ''a.mkv''),
         Stdout ''Please choose which audio stream to use for a.mkv:'',
         Stdout ''0: No Title (jpn)'', Stdout ''1: Commentary (eng)'',
         Prompt ''Choice: ''], Uncaught ValueError)
   \<and> snd (main two_audio_world [NotANumber]) \<noteq> Finished
   \<and> exit_status (snd (main two_audio_world [NotANumber])) = 1
   \<and> main mkdir_fail_world [] = ([Mkdir ''hardsubbed'', Stderr ''Permission denied''], SysExit None)
   \<and> exit_status (snd (main mkdir_fail_world [])) = 0"
  by code_simp

text \<open>
  C8, amended. If creating the output directory fails, the program prints the error on
  standard error and terminates immediately, performing no probe and no encode. In every
  other run in which the first pass completes, that is, probing and resolution raise no
  exception, the program falls through to normal termination, whatever the encoder
  invocations return (launch failure or non-zero exit code).
\<close>

theorem exit_behaviour:
  "(\<not> hardsubbed_exists w \<and> mkdir_fails w = Some msg \<longrightarrow>
      main w rs = ([Mkdir ''hardsubbed'', Stderr msg], SysExit None))
   \<and> ((hardsubbed_exists w \<or> mkdir_fails w = None)
        \<and> snd (pass1 (ffprobe w) (file_list (listing w)) Map.empty rs) = Inr r \<longrightarrow>
      snd (main w rs) = Finished)"
proof (intro conjI impI)
  assume "\<not> hardsubbed_exists w \<and> mkdir_fails w = Some msg"
  then show "main w rs = ([Mkdir ''hardsubbed'', Stderr msg], SysExit None)"
    by (simp add: main_def make_output_dir_def)
next
  assume ok: "(hardsubbed_exists w \<or> mkdir_fails w = None)
        \<and> snd (pass1 (ffprobe w) (file_list (listing w)) Map.empty rs) = Inr r"
  then show "snd (main w rs) = Finished"
    using main_outcome [of w rs] by simp
qed

theorem exit_behaviour_witness:
  "main mkdir_fail_world [] = ([Mkdir ''hardsubbed'', Stderr ''Permission denied''], SysExit None)
   \<and> encode_calls (fst (main mkdir_fail_world [])) = []
   \<and> count_probes (fst (main mkdir_fail_world [])) = 0
   \<and> hardsubbed_exists series_world
   \<and> snd (main (series_world \<lparr> ffmpeg := (\<lambda>args. Completed 1 ()) \<rparr>) []) = Finished
   \<and> snd (main (series_world \<lparr> ffmpeg := (\<lambda>args. LaunchError ''No such file'') \<rparr>) [])
       = Finished"
proof -
  have a: "\<not> hardsubbed_exists mkdir_fail_world
      \<and> mkdir_fails mkdir_fail_world = Some ''Permission denied''"
    by (simp add: mkdir_fail_world_def)
  have b: "hardsubbed_exists (series_world \<lparr> ffmpeg := f \<rparr>)" for f
    by (simp add: series_world_def)
  have q': "(case snd (pass1 (ffprobe series_world) (file_list (listing series_world))
                  Map.empty []) of Inl e \<Rightarrow> False | Inr r \<Rightarrow> True)"
    by code_simp
  have q: "\<exists>r. snd (pass1 (ffprobe series_world) (file_list (listing series_world))
                  Map.empty []) = Inr r"
    using q' by (cases "snd (pass1 (ffprobe series_world) (file_list (listing series_world))
                  Map.empty [])") simp_all
  have m: "main mkdir_fail_world []
      = ([Mkdir ''hardsubbed'', Stderr ''Permission denied''], SysExit None)"
    using exit_behaviour [of mkdir_fail_world "''Permission denied''" "[]"] a by blast
  have f1: "snd (main (series_world \<lparr> ffmpeg := f \<rparr>) []) = Finished" for f
  proof -
    from q obtain r where r: "snd (pass1 (ffprobe series_world)
        (file_list (listing series_world)) Map.empty []) = Inr r" by blast
    have e: "ffprobe (series_world \<lparr> ffmpeg := f \<rparr>) = ffprobe series_world"
      "listing (series_world \<lparr> ffmpeg := f \<rparr>) = listing series_world" by simp_all
    from exit_behaviour [of "series_world \<lparr> ffmpeg := f \<rparr>" msg "[]" r] b [of f] r
    show ?thesis unfolding e by simp
  qed
  have c: "encode_calls (fst (main mkdir_fail_world [])) = []"
    "count_probes (fst (main mkdir_fail_world [])) = 0"
    unfolding m by (simp_all add: count_probes_def)
  from m c b [of "ffmpeg series_world"] f1 show ?thesis by (simp add: series_world_def)
qed

section \<open>Runs on the sample inputs\<close>

text \<open>
  C2. Two files of one series, whose representative file probes to one audio stream (aac,
  2 channels) and no subtitle stream: one probe, no prompt and two encoder invocations with
  the null filter graph and the output paths under \<open>hardsubbed/\<close> with extension
  \<open>.mp4\<close>, as claimed; but each invocation carries the re-encode audio flags, not the
  stream-copy flags. Line 147 passes the channel count where \<open>get_audio_flags\<close> expects
  the codec and the codec where it expects the channel count, and line 20 compares the
  channel count with the string "2": the builder gives the stream-copy flags only for
  codec "aac" with channels the string "2", which no run supplies.
\<close>

theorem encode_uses_swapped_audio_arguments:
  "get_key ''[G] S - 01 a.mkv'' = ''S'' \<and> get_key ''[G] S - 02 a.mkv'' = ''S''
   \<and> count_probes (fst (main series_world [])) = 1
   \<and> count_prompts (fst (main series_world [])) = 0
   \<and> encode_calls (fst (main series_world [])) =
      [[''ffmpeg'', ''-hide_banner'', ''-loglevel'', ''warning'', ''-stats'', ''-i'',
        ''[G] S - 01 a.mkv'']
         @ video_flags
         @ [''-c:a'', ''aac'', ''-b:a'', ''192k'', ''-ac'', ''2'', ''-map'', ''0:a:0'']
         @ [''-filter_complex'', ''[0:v]null[burned];'' @ scale_stage, ''-map'', ''[v]'']
         @ [''hardsubbed/[G] S - 01 a.mp4''],
       [''ffmpeg'', ''-hide_banner'', ''-loglevel'', ''warning'', ''-stats'', ''-i'',
        ''[G] S - 02 a.mkv'']
         @ video_flags
         @ [''-c:a'', ''aac'', ''-b:a'', ''192k'', ''-ac'', ''2'', ''-map'', ''0:a:0'']
         @ [''-filter_complex'', ''[0:v]null[burned];'' @ scale_stage, ''-map'', ''[v]'']
         @ [''hardsubbed/[G] S - 02 a.mp4'']]
   \<and> get_audio_flags (PStr ''aac'') (PStr ''2'') (PInt 0)
        = [''-c:a'', ''copy'', ''-map'', ''0:a:0'']"
  by code_simp

text \<open>
  C9. When the probe exits non-zero and prints nothing that parses, the failure is
  reported on standard error, and then \<open>json.loads\<close> raises on the same output: the run
  ends there with an uncaught exception. The second file is never probed and nothing is
  encoded. The same happens when the output parses to an object without \<open>streams\<close>.
\<close>

theorem probe_failure_ends_run:
  "main probe_fail_world []
     = ([Probe (probe_args ''a.mkv''), Stderr ''probe failed with code: 1''],
        Uncaught JSONDecodeError)
   \<and> file_list (listing probe_fail_world) = [''a.mkv'', ''b.mkv'']
   \<and> Probe (probe_args ''b.mkv'') \<notin> set (fst (main probe_fail_world []))
   \<and> encode_calls (fst (main probe_fail_world [])) = []
   \<and> main (probe_fail_world \<lparr> ffprobe := (\<lambda>args. Completed 1 (JsonObject None)) \<rparr>) []
     = ([Probe (probe_args ''a.mkv''), Stderr ''probe failed with code: 1''],
        Uncaught (KeyError ''streams''))"
  by code_simp

section \<open>Output paths\<close>

lemma rfind_from_absent: "c \<notin> set xs \<Longrightarrow> rfind_from c xs pos found = found"
  by (induction xs arbitrary: pos found) auto

lemma rfind_from_append:
  "rfind_from c (xs @ ys) pos found
     = rfind_from c ys (pos + int (length xs)) (rfind_from c xs pos found)"
  by (induction xs arbitrary: pos found) (simp_all add: add.assoc)

lemma rfind_dot_ext:
  assumes "CHR ''.'' \<notin> set ext"
  shows "rfind (stem @ CHR ''.'' # ext) CHR ''.'' = int (length stem)"
  unfolding rfind_def rfind_from_append using assms by (simp add: rfind_from_absent)

lemma rfind_slash_none:
  assumes "CHR ''/'' \<notin> set p"
  shows "rfind p CHR ''/'' = - 1"
  unfolding rfind_def using assms by (rule rfind_from_absent)

lemma has_non_dot_first:
  assumes "stem \<noteq> []" "hd stem \<noteq> CHR ''.''"
  shows "has_non_dot (stem @ rest) 0 (int (length stem))"
proof -
  from assms(1) have "0 < int (length stem)" by simp
  moreover from assms have "(stem @ rest) ! nat 0 \<noteq> CHR ''.''"
    by (cases stem) simp_all
  ultimately show ?thesis by (subst has_non_dot.simps) simp
qed

lemma splitext_stem:
  assumes "stem \<noteq> []" "hd stem \<noteq> CHR ''.''" "CHR ''/'' \<notin> set stem"
    and "CHR ''.'' \<notin> set ext" "CHR ''/'' \<notin> set ext"
  shows "splitext (stem @ CHR ''.'' # ext) = (stem, CHR ''.'' # ext)"
proof -
  have sl: "rfind (stem @ CHR ''.'' # ext) CHR ''/'' = - 1"
    using assms(3,5) by (intro rfind_slash_none) simp
  have dt: "rfind (stem @ CHR ''.'' # ext) CHR ''.'' = int (length stem)"
    using assms(4) by (rule rfind_dot_ext)
  have nd: "has_non_dot (stem @ CHR ''.'' # ext) 0 (int (length stem))"
    using assms(1,2) by (rule has_non_dot_first)
  show ?thesis
    unfolding splitext_def sl dt using nd by (simp add: Let_def)
qed

lemma discovered_name:
  assumes "f \<in> set (file_list names)"
  shows "f \<in> set names \<and> f \<noteq> [] \<and> hd f \<noteq> CHR ''.''"
  using assms by (auto simp: file_list_def glob_star_def)

lemma last_encode_args: "last (encode_args f sel) = output_path f"
  by (simp add: encode_args_def Let_def)

text \<open>
  C10. Two files of the working directory with the same stem and the extensions
  \<open>.mkv\<close> and \<open>.mp4\<close>, both discovered, are distinct files with one output path,
  \<open>hardsubbed/<stem>.mp4\<close>: the encoder invocation of each, whatever the track
  selection, has arguments and ends with that path as its output argument. Names in a
  directory contain no slash.
\<close>

theorem same_stem_same_output:
  assumes "\<forall>f\<in>set names. CHR ''/'' \<notin> set f"
    and "stem @ ''.mkv'' \<in> set (file_list names)"
    and "stem @ ''.mp4'' \<in> set (file_list names)"
  shows "stem @ ''.mkv'' \<noteq> stem @ ''.mp4''
       \<and> output_path (stem @ ''.mkv'') = ''hardsubbed/'' @ stem @ ''.mp4''
       \<and> output_path (stem @ ''.mp4'') = ''hardsubbed/'' @ stem @ ''.mp4''
       \<and> encode_args (stem @ ''.mkv'') sel1 \<noteq> []
       \<and> encode_args (stem @ ''.mp4'') sel2 \<noteq> []
       \<and> last (encode_args (stem @ ''.mkv'') sel1) = ''hardsubbed/'' @ stem @ ''.mp4''
       \<and> last (encode_args (stem @ ''.mp4'') sel2) = ''hardsubbed/'' @ stem @ ''.mp4''
       \<and> last (encode_args (stem @ ''.mkv'') sel1) = last (encode_args (stem @ ''.mp4'') sel2)"
proof -
  from discovered_name [OF assms(2)] have
    mem: "stem @ ''.mkv'' \<in> set names" and hd: "hd (stem @ ''.mkv'') \<noteq> CHR ''.''" by auto
  from hd have ne: "stem \<noteq> []" by (cases stem) auto
  with hd have hd': "hd stem \<noteq> CHR ''.''" by simp
  from mem assms(1) have "CHR ''/'' \<notin> set (stem @ ''.mkv'')" by blast
  then have ns: "CHR ''/'' \<notin> set stem" by simp
  have a: "splitext (stem @ ''.mkv'') = (stem, ''.mkv'')"
    using splitext_stem [OF ne hd' ns, of "''mkv''"] by simp
  have b: "splitext (stem @ ''.mp4'') = (stem, ''.mp4'')"
    using splitext_stem [OF ne hd' ns, of "''mp4''"] by simp
  have nonempty: "encode_args f sel \<noteq> []" for f sel
    by (simp add: encode_args_def Let_def)
  show ?thesis
    unfolding last_encode_args using nonempty by (simp add: output_path_def a b)
qed

theorem same_stem_same_output_witness:
  "''X'' @ ''.mkv'' \<in> set (file_list [''X.mp4'', ''X.mkv''])
   \<and> ''X'' @ ''.mp4'' \<in> set (file_list [''X.mp4'', ''X.mkv''])
   \<and> output_path ''X.mkv'' = ''hardsubbed/X.mp4''
   \<and> output_path ''X.mp4'' = ''hardsubbed/X.mp4''
   \<and> last (encode_args ''X.mkv''
        \<lparr> audio_index = 0, subtitle_index = - 1, audio_codec = ''aac'',
          audio_channels = 2, subtitle_codec = ''none'' \<rparr>) = ''hardsubbed/X.mp4''
   \<and> last (encode_args ''X.mp4''
        \<lparr> audio_index = 0, subtitle_index = 0, audio_codec = ''flac'',
          audio_channels = 6, subtitle_codec = ''subrip'' \<rparr>) = ''hardsubbed/X.mp4''"
proof -
  have h1: "\<forall>f\<in>set [''X.mp4'', ''X.mkv'']. CHR ''/'' \<notin> set f" by simp
  have fl: "file_list [''X.mp4'', ''X.mkv''] = [''X.mkv'', ''X.mp4'']" by code_simp
  have h2: "''X'' @ ''.mkv'' \<in> set (file_list [''X.mp4'', ''X.mkv''])" unfolding fl by simp
  have h3: "''X'' @ ''.mp4'' \<in> set (file_list [''X.mp4'', ''X.mkv''])" unfolding fl by simp
  from same_stem_same_output [OF h1 h2 h3] h2 h3 show ?thesis by simp
qed

end
